theory Spec2Isabelle
  imports Complex_Main
begin

section \<open>Texts\<close>

text \<open>
  Python strings are modelled as \<^typ>\<open>string\<close>, one \<^typ>\<open>char\<close> per character: a
  \<^typ>\<open>char\<close> is a code point below 256, so that the texts of the model are the
  strings of Latin-1 characters, and a text with a character beyond them is outside the
  model. On these characters the definitions below are those of Python:
  \<^item> \<open>str.lower\<close> maps \<open>A\<close>..\<open>Z\<close> to \<open>a\<close>..\<open>z\<close> and the capital letters
    0xC0..0xDE (but for the multiplication sign 0xD7) to the letters 0x20 above them,
    and leaves every other character alone;
  \<^item> the white space of \<open>str.isspace\<close>, \<open>str.strip\<close>, \<open>str.split\<close> and of the
    pattern \<open>\s\<close> is the tab, the line feed, the vertical tab, the form feed, the
    carriage return, the four separators 0x1C..0x1F, the blank, the next-line
    character 0x85 and the no-break space 0xA0;
  \<^item> the digits of the pattern \<open>\d\<close> are \<open>0\<close>..\<open>9\<close>;
  \<^item> the word characters of the pattern \<open>\w\<close>, which decide where \<open>\b\<close> matches,
    are the ASCII letters, the digits, the underscore, and the letters and numbers of
    the upper half: 0xAA, 0xB2, 0xB3, 0xB5, 0xB9, 0xBA, 0xBC..0xBE and 0xC0..0xFF but for
    the signs 0xD7 and 0xF7.
  The tests \<open>is_upper\<close>, \<open>is_lower\<close>, \<open>is_alpha\<close> and \<open>is_alnum\<close> are the character
  classes \<open>[A-Z]\<close>, \<open>[a-z]\<close>, \<open>[a-zA-Z]\<close> and \<open>[a-zA-Z0-9]\<close> of the patterns.
\<close>

definition upper_letters :: string where
  "upper_letters = ''ABCDEFGHIJKLMNOPQRSTUVWXYZ''"

definition lower_letters :: string where
  "lower_letters = ''abcdefghijklmnopqrstuvwxyz''"

definition digits :: string where
  "digits = ''0123456789''"

definition latin1_capitals :: string where
  "latin1_capitals =
     [CHR 0xC0, CHR 0xC1, CHR 0xC2, CHR 0xC3, CHR 0xC4, CHR 0xC5, CHR 0xC6, CHR 0xC7,
      CHR 0xC8, CHR 0xC9, CHR 0xCA, CHR 0xCB, CHR 0xCC, CHR 0xCD, CHR 0xCE, CHR 0xCF,
      CHR 0xD0, CHR 0xD1, CHR 0xD2, CHR 0xD3, CHR 0xD4, CHR 0xD5, CHR 0xD6, CHR 0xD8,
      CHR 0xD9, CHR 0xDA, CHR 0xDB, CHR 0xDC, CHR 0xDD, CHR 0xDE]"

definition latin1_smalls :: string where
  "latin1_smalls =
     [CHR 0xE0, CHR 0xE1, CHR 0xE2, CHR 0xE3, CHR 0xE4, CHR 0xE5, CHR 0xE6, CHR 0xE7,
      CHR 0xE8, CHR 0xE9, CHR 0xEA, CHR 0xEB, CHR 0xEC, CHR 0xED, CHR 0xEE, CHR 0xEF,
      CHR 0xF0, CHR 0xF1, CHR 0xF2, CHR 0xF3, CHR 0xF4, CHR 0xF5, CHR 0xF6, CHR 0xF8,
      CHR 0xF9, CHR 0xFA, CHR 0xFB, CHR 0xFC, CHR 0xFD, CHR 0xFE]"

definition latin1_others :: string where
  "latin1_others =
     [CHR 0xAA, CHR 0xB2, CHR 0xB3, CHR 0xB5, CHR 0xB9, CHR 0xBA, CHR 0xBC, CHR 0xBD,
      CHR 0xBE, CHR 0xDF, CHR 0xFF]"

definition whitespace :: string where
  "whitespace = [CHR 0x09, CHR 0x0A, CHR 0x0B, CHR 0x0C, CHR 0x0D,
                 CHR 0x1C, CHR 0x1D, CHR 0x1E, CHR 0x1F, CHR 0x20, CHR 0x85, CHR 0xA0]"

definition lower_char :: "char \<Rightarrow> char" where
  "lower_char c =
     (case map_of (zip (upper_letters @ latin1_capitals) (lower_letters @ latin1_smalls)) c of
        Some d \<Rightarrow> d | None \<Rightarrow> c)"

text \<open>\<open>s.lower()\<close>\<close>

definition lower :: "string \<Rightarrow> string" where
  "lower s = map lower_char s"

definition is_space :: "char \<Rightarrow> bool" where
  "is_space c = (c \<in> set whitespace)"

definition is_digit :: "char \<Rightarrow> bool" where
  "is_digit c = (c \<in> set digits)"

definition is_upper :: "char \<Rightarrow> bool" where
  "is_upper c = (c \<in> set upper_letters)"

definition is_lower :: "char \<Rightarrow> bool" where
  "is_lower c = (c \<in> set lower_letters)"

definition is_alpha :: "char \<Rightarrow> bool" where
  "is_alpha c = (is_lower c \<or> is_upper c)"

definition is_alnum :: "char \<Rightarrow> bool" where
  "is_alnum c = (is_alpha c \<or> is_digit c)"

text \<open>\<open>s.strip()\<close>: white space removed at both ends.\<close>

definition strip :: "string \<Rightarrow> string" where
  "strip s = rev (dropWhile is_space (rev (dropWhile is_space s)))"

text \<open>\<open>t.startswith(w)\<close> and the containment test \<open>w in t\<close> of two strings.\<close>

fun startswith :: "string \<Rightarrow> string \<Rightarrow> bool" where
  "startswith t [] = True"
| "startswith [] (c # w) = False"
| "startswith (d # t) (c # w) = (d = c \<and> startswith t w)"

fun str_in :: "string \<Rightarrow> string \<Rightarrow> bool" where
  "str_in w [] = (w = [])"
| "str_in w (c # t) = (startswith (c # t) w \<or> str_in w t)"

text \<open>
  The slice \<open>xs[:n]\<close> for any integer \<open>n\<close>: a negative \<open>n\<close> counts from the end.
\<close>

definition slice_to :: "int \<Rightarrow> 'a list \<Rightarrow> 'a list" where
  "slice_to n xs = (if n < 0 then take (nat (int (length xs) + n)) xs else take (nat n) xs)"

section \<open>Data model (\<open>src/data/models.py\<close>)\<close>

datatype EmailCategory = SUPPORT | COMPLAINT | INQUIRY | ORDER | BILLING | TECHNICAL | GENERAL

datatype EmailPriority = LOW | MEDIUM | HIGH | URGENT

datatype EmailSentiment = POSITIVE | NEUTRAL | NEGATIVE

text \<open>The wire value of a category, and the list of all categories in declaration order.\<close>

fun category_value :: "EmailCategory \<Rightarrow> string" where
  "category_value SUPPORT = ''support''"
| "category_value COMPLAINT = ''complaint''"
| "category_value INQUIRY = ''inquiry''"
| "category_value ORDER = ''order''"
| "category_value BILLING = ''billing''"
| "category_value TECHNICAL = ''technical''"
| "category_value GENERAL = ''general''"

definition all_categories :: "EmailCategory list" where
  "all_categories = [SUPPORT, COMPLAINT, INQUIRY, ORDER, BILLING, TECHNICAL, GENERAL]"

text \<open>
  \<open>EmailCategory(s)\<close>, also what the validation of a field of type \<open>EmailCategory\<close>
  does with a string: the member whose value is \<open>s\<close>, and an error (\<open>None\<close>) when
  there is none.
\<close>

definition EmailCategory_of :: "string \<Rightarrow> EmailCategory option" where
  "EmailCategory_of s = find (\<lambda>c. category_value c = s) all_categories"

record EmailRequest =
  subject :: string
  body :: string
  sender :: string
  attachments :: "string list"
  metadata :: "(string \<times> string) list"

section \<open>Text analysis (\<open>src/ai/text_analyzer.py\<close>)\<close>

definition positive_keywords :: "string list" where
  "positive_keywords =
     [''thank'', ''great'', ''excellent'', ''wonderful'', ''amazing'', ''love'',
      ''perfect'', ''satisfied'', ''happy'', ''pleased'']"

definition negative_keywords :: "string list" where
  "negative_keywords =
     [''terrible'', ''awful'', ''bad'', ''horrible'', ''disappointed'', ''angry'',
      ''frustrated'', ''upset'', ''unhappy'', ''hate'', ''worst'']"

text \<open>\<open>sum(1 for word in keywords if word in text_lower)\<close>\<close>

definition count_present :: "string list \<Rightarrow> string \<Rightarrow> nat" where
  "count_present keywords text_lower = length (filter (\<lambda>word. str_in word text_lower) keywords)"

definition analyze_sentiment :: "string \<Rightarrow> EmailSentiment" where
  "analyze_sentiment text =
     (let text_lower = lower text;
          positive_count = count_present positive_keywords text_lower;
          negative_count = count_present negative_keywords text_lower
      in if positive_count > negative_count then POSITIVE
         else if negative_count > positive_count then NEGATIVE
         else NEUTRAL)"


subsection \<open>Pattern matching as \<open>re.findall\<close> does it\<close>

text \<open>
  The four entity patterns and the word pattern of the keyword extraction are matched by
  Python's backtracking matcher. The model covers the constructs these patterns use. A
  cursor is the character before the current position (none at the start of the text),
  the rest of the text, and what group 1 has captured so far. Matching a pattern at a
  cursor gives every cursor at which the pattern can end, in the order in which the
  backtracking matcher tries them: the first one is the match it reports.
\<close>

type_synonym cursor = "char option \<times> string \<times> string option"

datatype regex =
    Chr "char \<Rightarrow> bool"
  | Seq regex regex
  | Alt regex regex
  | Opt regex
  | Times nat "char \<Rightarrow> bool"
  | AtLeast nat "char \<Rightarrow> bool"
  | Boundary
  | Group regex

text \<open>\<open>\w\<close>: the word characters.\<close>

definition is_word :: "char \<Rightarrow> bool" where
  "is_word c = (is_alnum c \<or> c = CHR ''_'' \<or>
                c \<in> set (latin1_others @ latin1_capitals @ latin1_smalls))"

fun word_before :: "char option \<Rightarrow> bool" where
  "word_before None = False"
| "word_before (Some c) = is_word c"

fun word_after :: "string \<Rightarrow> bool" where
  "word_after [] = False"
| "word_after (c # cs) = is_word c"

text \<open>The cursor after \<open>j\<close> more characters (\<open>j\<close> is at most the length of the rest).\<close>

fun advance :: "nat \<Rightarrow> cursor \<Rightarrow> cursor" where
  "advance j (prev, rest, g) =
     ((case take j rest of [] \<Rightarrow> prev | c # cs \<Rightarrow> Some (last (c # cs))), drop j rest, g)"

fun rmatch :: "regex \<Rightarrow> cursor \<Rightarrow> cursor list" where
  "rmatch (Chr p) (prev, rest, g) =
     (case rest of [] \<Rightarrow> [] | c # cs \<Rightarrow> if p c then [(Some c, cs, g)] else [])"
| "rmatch (Seq a b) cur = concat (map (rmatch b) (rmatch a cur))"
| "rmatch (Alt a b) cur = rmatch a cur @ rmatch b cur"
| "rmatch (Opt a) cur = rmatch a cur @ [cur]"
| "rmatch (Times n p) (prev, rest, g) =
     (if n \<le> length rest \<and> list_all p (take n rest) then [advance n (prev, rest, g)] else [])"
| "rmatch (AtLeast n p) (prev, rest, g) =
     map (\<lambda>j. advance j (prev, rest, g)) (rev [n ..< Suc (length (takeWhile p rest))])"
| "rmatch Boundary (prev, rest, g) =
     (if word_before prev \<noteq> word_after rest then [(prev, rest, g)] else [])"
| "rmatch (Group a) (prev, rest, g) =
     map (\<lambda>(prev', rest', g'). (prev', rest', Some (take (length rest - length rest') rest)))
       (rmatch a (prev, rest, g))"

text \<open>
  One match: where it starts, its text, and the text of group 1 when the pattern has one.
\<close>

record found =
  start :: nat
  matched :: string
  group1 :: "string option"

text \<open>
  The scan of \<open>re.finditer\<close>: the leftmost match from the current position on, then on
  from where that match ended. \<open>scan r i k prev text\<close> is at position \<open>i\<close>, with \<open>prev\<close>
  before it and \<open>text\<close> from it on, and has \<open>k\<close> more characters of the last match to
  pass. None of the patterns below matches the empty string, so that no match is empty
  and none starts at the end of the text.
\<close>

fun scan :: "regex \<Rightarrow> nat \<Rightarrow> nat \<Rightarrow> char option \<Rightarrow> string \<Rightarrow> found list" where
  "scan r i k prev [] = []"
| "scan r i k prev (c # cs) =
     (if 0 < k then scan r (Suc i) (k - 1) (Some c) cs
      else case rmatch r (prev, c # cs, None) of
             [] \<Rightarrow> scan r (Suc i) 0 (Some c) cs
           | (prev', rest', g) # _ \<Rightarrow>
               (let n = length (c # cs) - length rest'
                in \<lparr>start = i, matched = take n (c # cs), group1 = g\<rparr>
                   # scan r (Suc i) (n - 1) (Some c) cs))"

definition finditer :: "regex \<Rightarrow> string \<Rightarrow> found list" where
  "finditer r text = scan r 0 0 None text"

text \<open>
  \<open>re.findall\<close> gives the texts of the matches for a pattern with no group, and the
  texts of group 1 (empty where the group took no part) for a pattern with one group.
\<close>

definition findall :: "regex \<Rightarrow> string \<Rightarrow> string list" where
  "findall r text = map matched (finditer r text)"

definition findall_group :: "regex \<Rightarrow> string \<Rightarrow> string list" where
  "findall_group r text =
     map (\<lambda>m. case group1 m of None \<Rightarrow> [] | Some g \<Rightarrow> g) (finditer r text)"

text \<open>A sequence of patterns, a literal character, a literal matched without regard to case.\<close>

definition seq :: "regex list \<Rightarrow> regex" where
  "seq rs = foldr Seq (butlast rs) (last rs)"

definition one_of :: "string \<Rightarrow> char \<Rightarrow> bool" where
  "one_of s c = (c \<in> set s)"

definition lit_ignorecase :: "string \<Rightarrow> regex" where
  "lit_ignorecase s = seq (map (\<lambda>x. Chr (\<lambda>c. lower_char c = x)) s)"

text \<open>\<^verbatim>\<open>\b[A-Za-z0-9._%+-]+@[A-Za-z0-9.-]+\.[A-Z|a-z]{2,}\b\<close>\<close>

definition email_pattern :: regex where
  "email_pattern =
     seq [Boundary,
          AtLeast 1 (\<lambda>c. is_alnum c \<or> one_of ''._%+-'' c),
          Chr (one_of ''@''),
          AtLeast 1 (\<lambda>c. is_alnum c \<or> one_of ''.-'' c),
          Chr (one_of ''.''),
          AtLeast 2 (\<lambda>c. is_alpha c \<or> one_of ''|'' c),
          Boundary]"

text \<open>\<^verbatim>\<open>\b\d{3}[-.]?\d{3}[-.]?\d{4}\b\<close>\<close>

definition phone_pattern :: regex where
  "phone_pattern =
     seq [Boundary, Times 3 is_digit, Opt (Chr (one_of ''-.'')), Times 3 is_digit,
          Opt (Chr (one_of ''-.'')), Times 4 is_digit, Boundary]"

text \<open>\<^verbatim>\<open>(?:order|#)\s*[-:]?\s*([a-zA-Z0-9]+)\<close> with \<open>re.IGNORECASE\<close>\<close>

definition order_pattern :: regex where
  "order_pattern =
     seq [Alt (lit_ignorecase ''order'') (Chr (one_of ''#'')),
          AtLeast 0 is_space, Opt (Chr (one_of ''-:'')), AtLeast 0 is_space,
          Group (AtLeast 1 is_alnum)]"

text \<open>\<^verbatim>\<open>\$\d+(?:\.\d{2})?\<close>\<close>

definition money_pattern :: regex where
  "money_pattern =
     seq [Chr (one_of ''$''), AtLeast 1 is_digit,
          Opt (Seq (Chr (one_of ''.'')) (Times 2 is_digit))]"

text \<open>\<^verbatim>\<open>\b[a-zA-Z]{3,}\b\<close>\<close>

definition word_pattern :: regex where
  "word_pattern = seq [Boundary, AtLeast 3 is_alpha, Boundary]"

subsection \<open>Entities\<close>

record entity =
  entity_type :: string
  entity_value :: string

definition entities_of :: "string \<Rightarrow> string list \<Rightarrow> entity list" where
  "entities_of t vs = map (\<lambda>v. \<lparr>entity_type = t, entity_value = v\<rparr>) vs"

definition extract_entities :: "string \<Rightarrow> entity list" where
  "extract_entities text =
     entities_of ''email'' (findall email_pattern text)
     @ entities_of ''phone'' (findall phone_pattern text)
     @ entities_of ''order_id'' (findall_group order_pattern text)
     @ entities_of ''money'' (findall money_pattern text)"


subsection \<open>Keywords\<close>

definition stop_words :: "string list" where
  "stop_words =
     [''the'', ''a'', ''an'', ''and'', ''or'', ''but'', ''in'', ''on'', ''at'', ''to'', ''for'',
      ''of'', ''with'', ''by'', ''from'', ''up'', ''about'', ''into'', ''through'', ''during'',
      ''before'', ''after'', ''above'', ''below'', ''between'', ''among'', ''is'', ''are'',
      ''was'', ''were'', ''be'', ''been'', ''being'', ''have'', ''has'', ''had'', ''do'', ''does'',
      ''did'', ''will'', ''would'', ''could'', ''should'', ''may'', ''might'', ''can'', ''am'']"

text \<open>
  The dictionary \<open>word_freq\<close> keeps its keys in the order of their first insertion, and
  that order is what the sort below starts from: it is an association list.
  \<open>dict_get d k v\<close> is \<open>d.get(k, v)\<close> and \<open>dict_set d k v\<close> is \<open>d[k] = v\<close>.
\<close>

fun dict_get :: "('k \<times> 'v) list \<Rightarrow> 'k \<Rightarrow> 'v \<Rightarrow> 'v" where
  "dict_get [] k v = v"
| "dict_get ((k', v') # d) k v = (if k' = k then v' else dict_get d k v)"

fun dict_set :: "('k \<times> 'v) list \<Rightarrow> 'k \<Rightarrow> 'v \<Rightarrow> ('k \<times> 'v) list" where
  "dict_set [] k v = [(k, v)]"
| "dict_set ((k', v') # d) k v = (if k' = k then (k, v) # d else (k', v') # dict_set d k v)"

text \<open>The loop over the words, from the dictionary built so far.\<close>

fun count_words :: "(string \<times> nat) list \<Rightarrow> string list \<Rightarrow> (string \<times> nat) list" where
  "count_words word_freq [] = word_freq"
| "count_words word_freq (word # words) =
     (if word \<notin> set stop_words
      then count_words (dict_set word_freq word (dict_get word_freq word 0 + 1)) words
      else count_words word_freq words)"

text \<open>
  \<open>sorted(items, key=lambda x: x[1], reverse=True)\<close>: Python's sort is stable, also
  with \<open>reverse=True\<close>, so that items of equal count keep the order they had.
\<close>

definition sorted_by_count_reverse :: "(string \<times> nat) list \<Rightarrow> (string \<times> nat) list" where
  "sorted_by_count_reverse items = sort_key (\<lambda>x. - int (snd x)) items"

definition extract_keywords :: "string \<Rightarrow> int \<Rightarrow> string list" where
  "extract_keywords text max_keywords =
     (let text_lower = lower text;
          words = findall word_pattern text_lower;
          word_freq = count_words [] words;
          keywords = sorted_by_count_reverse word_freq
      in map fst (slice_to max_keywords keywords))"

section \<open>The completion service and the classifier of \<open>src/ai/llm_client.py\<close>\<close>

text \<open>
  The classification that \<open>LLMClient.classify_email\<close> returns is the JSON object of the
  completion service's reply, as \<open>json.loads\<close> gives it. The model keeps the three entries
  the pipeline reads, each absent (\<open>None\<close>) or present: \<open>"category"\<close> and
  \<open>"subcategory"\<close> as strings, \<open>"confidence"\<close> as a number.
\<close>

record ai_classification =
  ai_category :: "string option"
  ai_subcategory :: "string option"
  ai_confidence :: "real option"

text \<open>
  One request to the completion service: the request raises (\<open>Unavailable\<close>), or its
  text is not a JSON object (\<open>Garbled\<close>: \<open>json.loads\<close> or the \<open>.get\<close> that follows
  raises), or it is an object. The service is outside the repository and has a state of
  its own: what it answers depends on the prompt and on how many requests it has had
  before.
\<close>

datatype llm_outcome = Unavailable | Garbled | Object ai_classification

type_synonym llm_service = "nat \<Rightarrow> string \<Rightarrow> llm_outcome"

datatype error = CompletionError | ParseError | KeyError string | ValidationError

definition newline :: char where
  "newline = CHR 0x0A"

text \<open>\<open>"\n".join(lines)\<close>\<close>

fun join_lines :: "string list \<Rightarrow> string" where
  "join_lines [] = []"
| "join_lines [l] = l"
| "join_lines (l # ls) = l @ newline # join_lines ls"

definition categories_repr :: string where
  \<open>categories_repr =
     ''['support', 'complaint', 'inquiry', 'order', 'billing', 'technical', 'general']''\<close>

definition sentiments_repr :: string where
  \<open>sentiments_repr = ''['positive', 'neutral', 'negative']''\<close>

definition build_classification_prompt :: "string \<Rightarrow> string" where
  \<open>build_classification_prompt content =
     join_lines
       ['''',
        ''        Please analyze the following email and provide a classification in JSON format.'',
        '''',
        ''        Email Content:'',
        ''        '' @ content,
        '''',
        ''        Please provide the classification with the following structure:'',
        ''        {'',
        ''            "category": "one of '' @ categories_repr @ ''",'',
        ''            "subcategory": "specific subcategory if applicable",'',
        ''            "sentiment": "one of '' @ sentiments_repr @ ''",'',
        ''            "confidence": "confidence score between 0.0 and 1.0",'',
        ''            "reasoning": "brief explanation of the classification"'',
        ''        }'',
        '''',
        ''        Consider the content, tone, and intent of the email when classifying.'',
        ''        '']\<close>

text \<open>
  \<open>LLMClient.classify_email\<close>, with \<open>n\<close> the number of requests the service has had
  so far: one request, and every exception is logged and raised again. The result is
  the classification or the error, and the prompts of the requests made, in order.
\<close>

definition LLMClient_classify_email ::
  "llm_service \<Rightarrow> nat \<Rightarrow> string \<Rightarrow> (error + ai_classification) \<times> string list" where
  "LLMClient_classify_email create n content =
     (case create n (build_classification_prompt content) of
        Unavailable \<Rightarrow> (Inl CompletionError, [build_classification_prompt content])
      | Garbled \<Rightarrow> (Inl ParseError, [build_classification_prompt content])
      | Object classification \<Rightarrow> (Inr classification, [build_classification_prompt content]))"

section \<open>The email processor (\<open>src/core/email_processor.py\<close>)\<close>

record EmailClassification =
  category :: EmailCategory
  subcategory :: "string option"
  priority :: EmailPriority
  sentiment :: EmailSentiment
  confidence :: real
  key_words :: "string list"
  entities :: "entity list"

definition urgent_keywords :: "string list" where
  "urgent_keywords =
     [''urgent'', ''emergency'', ''critical'', ''asap'', ''immediately'',
      ''broken'', ''down'', ''not working'', ''error'', ''failed'']"

text \<open>
  \<open>_determine_priority\<close>. \<open>EmailCategory\<close> is a string enumeration: the category of the
  reply equals a member exactly when it is the member's value.
\<close>

definition determine_priority :: "'a EmailRequest_scheme \<Rightarrow> 'b ai_classification_scheme \<Rightarrow> EmailPriority" where
  "determine_priority email ai =
     (let content_lower = lower (subject email @ '' '' @ body email)
      in if list_ex (\<lambda>keyword. str_in keyword content_lower) urgent_keywords then URGENT
         else if ai_category ai = Some (category_value COMPLAINT) then HIGH
         else if ai_category ai \<in> set [Some (category_value TECHNICAL), Some (category_value BILLING)]
              then MEDIUM
         else LOW)"

text \<open>
  The construction of the \<open>EmailClassification\<close>: a missing \<open>"category"\<close> or
  \<open>"confidence"\<close> entry raises \<open>KeyError\<close> when it is read, and the model's validation
  rejects a category that is no member of \<open>EmailCategory\<close> and a confidence outside
  \<open>[0, 1]\<close>.
\<close>

definition make_classification ::
  "'b ai_classification_scheme \<Rightarrow> EmailPriority \<Rightarrow> EmailSentiment \<Rightarrow> string list \<Rightarrow> entity list
     \<Rightarrow> error + EmailClassification" where
  "make_classification ai p s ks es =
     (case ai_category ai of
        None \<Rightarrow> Inl (KeyError ''category'')
      | Some c \<Rightarrow>
         (case ai_confidence ai of
            None \<Rightarrow> Inl (KeyError ''confidence'')
          | Some x \<Rightarrow>
             (case EmailCategory_of c of
                None \<Rightarrow> Inl ValidationError
              | Some cat \<Rightarrow>
                  if 0 \<le> x \<and> x \<le> 1
                  then Inr \<lparr>category = cat, subcategory = ai_subcategory ai, priority = p,
                            sentiment = s, confidence = x, key_words = ks, entities = es\<rparr>
                  else Inl ValidationError)))"

text \<open>
  \<open>EmailProcessor.classify_email\<close>: every exception is logged and raised again. The
  text it analyses is \<open>f"Subject: {email.subject}\n\nBody: {email.body}"\<close>. The result
  comes with the prompts of the requests made to the completion service.
\<close>

definition email_content :: "'a EmailRequest_scheme \<Rightarrow> string" where
  "email_content email =
     ''Subject: '' @ subject email @ [newline, newline] @ ''Body: '' @ body email"

definition EmailProcessor_classify_email ::
  "llm_service \<Rightarrow> nat \<Rightarrow> 'a EmailRequest_scheme \<Rightarrow> (error + EmailClassification) \<times> string list" where
  "EmailProcessor_classify_email create n email =
     (let content = email_content email
      in case LLMClient_classify_email create n content of
           (Inl e, sent) \<Rightarrow> (Inl e, sent)
         | (Inr ai, sent) \<Rightarrow>
             (make_classification ai (determine_priority email ai) (analyze_sentiment content)
                (extract_keywords content 10) (extract_entities content),
              sent))"

section \<open>The batch classifier (\<open>enhanced_email_classifier.py\<close>)\<close>

definition VALID_CATEGORIES :: "string list" where
  "VALID_CATEGORIES = [''order'', ''inquiry'', ''other'']"

definition DEFAULT_CATEGORY :: string where
  "DEFAULT_CATEGORY = ''other''"

definition MAX_RETRIES :: int where
  "MAX_RETRIES = 3"

definition RETRY_DELAY :: real where
  "RETRY_DELAY = 1.0"

text \<open>
  A cell of the data frame: a string, \<open>None\<close>, or another value, given by its \<open>str()\<close>.
\<close>

datatype cell = Str string | PyNone | Other string

fun as_text :: "cell \<Rightarrow> string" where
  "as_text (Str s) = s"
| "as_text PyNone = []"
| "as_text (Other s) = s"

definition truncate_to :: "nat \<Rightarrow> string \<Rightarrow> string" where
  "truncate_to n s = (if length s > n then take n s @ ''...'' else s)"

definition classification_prompt :: "string \<Rightarrow> string \<Rightarrow> string" where
  \<open>classification_prompt subj bdy =
     join_lines
       [''You are an email classification system for customer support. Classify the email below into exactly one of these categories:'',
        '''',
        ''Categories:'',
        ''- order: Questions about existing orders, order status, shipping, delivery, returns, refunds'',
        ''- inquiry: Product questions, general information requests, technical support'',
        ''- other: All other emails including greetings, complaints, feedback, spam'',
        '''',
        ''Email to classify:'',
        ''Subject: '' @ subj,
        '''',
        ''Body:'',
        bdy,
        '''',
        ''Instructions:'',
        ''- Respond with ONLY the category name in lowercase'',
        ''- Do not include any explanation or additional text'',
        ''- Valid responses are: order, inquiry, other'',
        '''',
        ''Category:'']\<close>

text \<open>
  One request of the client. The request raises, or it gives a response; of a response
  the classifier reads \<open>response.choices[0].message.content\<close>, which is a text, or
  is none (the content is \<open>None\<close>, or there is no first choice to read it from), and
  \<open>response.usage\<close>: the response has no such attribute, or the attribute is \<open>None\<close>,
  or it holds the three token counts. The client is an external service
  with a state of its own: its answer depends on the prompt and on how many requests it
  has had before. What the classifier does to the outside is a list of events: the
  requests it sends and the pauses it makes (\<open>time.sleep\<close>, in seconds).
\<close>

datatype usage = NoUsage | UsageNone | Usage nat nat nat

datatype completion = Raises | Replies "string option" usage

type_synonym client = "nat \<Rightarrow> string \<Rightarrow> completion"

datatype event = Request string | Sleep real

text \<open>
  The \<open>try\<close> block up to the validation of the category: the category read from the
  response, or \<open>None\<close> when an exception is raised. The request may raise;
  reading the content and \<open>content.strip()\<close> raise when there is no first choice
  and when the content is \<open>None\<close>; and the line that logs the
  token usage is built whenever the response has a \<open>usage\<close> attribute, and reading
  \<open>response.usage.prompt_tokens\<close> raises when that attribute is \<open>None\<close>.
\<close>

fun read_category :: "completion \<Rightarrow> string option" where
  "read_category Raises = None"
| "read_category (Replies None u) = None"
| "read_category (Replies (Some content) UsageNone) = None"
| "read_category (Replies (Some content) NoUsage) = Some (lower (strip content))"
| "read_category (Replies (Some content) (Usage p c t)) = Some (lower (strip content))"

text \<open>
  \<open>classify_email(client, subject, body, retry_count)\<close>, with \<open>n\<close> the number of requests the
  client has had so far. The result is the category and the events in order. Every
  exception of the \<open>try\<close> block is handled alike: another attempt after a pause while
  \<open>retry_count < MAX_RETRIES - 1\<close>, the default category otherwise.
\<close>

function classify_email :: "client \<Rightarrow> nat \<Rightarrow> cell \<Rightarrow> cell \<Rightarrow> int \<Rightarrow> string \<times> event list" where
  "classify_email client n subj bdy retry_count =
     (case read_category
             (client n (classification_prompt (truncate_to 200 (as_text subj))
                                              (truncate_to 2000 (as_text bdy)))) of
        Some category_text \<Rightarrow>
          (if category_text \<notin> set VALID_CATEGORIES
           then (DEFAULT_CATEGORY,
                 [Request (classification_prompt (truncate_to 200 (as_text subj))
                                                 (truncate_to 2000 (as_text bdy)))])
           else (category_text,
                 [Request (classification_prompt (truncate_to 200 (as_text subj))
                                                 (truncate_to 2000 (as_text bdy)))]))
      | None \<Rightarrow>
          (if retry_count < MAX_RETRIES - 1
           then (case classify_email client (Suc n) (Str (truncate_to 200 (as_text subj)))
                        (Str (truncate_to 2000 (as_text bdy))) (retry_count + 1) of
                   (result, events) \<Rightarrow>
                     (result,
                      Request (classification_prompt (truncate_to 200 (as_text subj))
                                                     (truncate_to 2000 (as_text bdy)))
                      # Sleep RETRY_DELAY # events))
           else (DEFAULT_CATEGORY,
                 [Request (classification_prompt (truncate_to 200 (as_text subj))
                                                 (truncate_to 2000 (as_text bdy)))])))"
  by pat_completeness auto
termination
  by (relation "measure (\<lambda>(client, n, subject, body, retry_count). nat (MAX_RETRIES - 1 - retry_count))")
     auto

section \<open>Semantic search (\<open>src/ai/semantic_search.py\<close>)\<close>

record SearchQuery =
  query :: string
  limit :: int
  category_filter :: "EmailCategory option"
  date_from :: "string option"
  date_to :: "string option"

record SearchResult =
  email_id :: string
  result_subject :: string
  snippet :: string
  similarity_score :: real
  result_category :: EmailCategory
  timestamp :: string

record SearchOutput =
  results :: "SearchResult list"
  total_count :: nat

text \<open>
  One neighbour in the answer of the index: its id, its document, its metadata (a
  dictionary of strings) and its cosine distance to the query. The answer of the index
  is a list of neighbours.
\<close>

record hit =
  hit_id :: string
  hit_document :: string
  hit_metadata :: "(string \<times> string) list"
  hit_distance :: real

text \<open>
  The services the engine calls are outside the repository and are parameters of the
  model, each a function that answers or raises (\<open>None\<close>):
  \<^item> \<open>embeddings_create\<close>, the embedding of a text;
  \<^item> \<open>collection_get\<close>, the ids and the embeddings stored under an id;
  \<^item> \<open>collection_query\<close>, the neighbours of an embedding, given the number of results
    asked for and the \<open>where\<close> filter;
  \<^item> \<open>valid_datetime\<close>, whether the validation of \<open>SearchResult\<close> accepts a string as
    a timestamp.
  A distance and a score are finite floating-point numbers, here the real numbers they
  stand for. The one floating-point operation of the engine is the subtraction \<open>1.0 - d\<close>,
  whose result is rounded; the model does not compute the rounding and takes the
  operation as one more parameter, \<open>one_minus\<close>. The maximum with \<open>0.0\<close> and the
  comparisons are exact.
\<close>

record engine =
  embeddings_create :: "string \<Rightarrow> real list option"
  collection_get :: "string \<Rightarrow> (string list \<times> real list list) option"
  collection_query :: "real list \<Rightarrow> int \<Rightarrow> (string \<times> string) list option \<Rightarrow> hit list option"
  valid_datetime :: "string \<Rightarrow> bool"
  one_minus :: "real \<Rightarrow> real"

text \<open>The calls an operation makes to the services, in order.\<close>

datatype call =
    Embed string
  | Get string
  | Query "real list" int "(string \<times> string) list option"

datatype search_error = EmbeddingFailed | IndexFailed | InvalidResult

text \<open>\<open>q.lower().split()\<close>: the maximal runs of characters that are not white space.\<close>

fun split_from :: "string \<Rightarrow> string \<Rightarrow> string list" where
  "split_from cur [] = (if cur = [] then [] else [cur])"
| "split_from cur (c # cs) =
     (if is_space c then (if cur = [] then split_from [] cs else cur # split_from [] cs)
      else split_from (cur @ [c]) cs)"

definition split :: "string \<Rightarrow> string list" where
  "split s = split_from [] s"

text \<open>\<open>s.rfind(c)\<close>: the index of the last \<open>c\<close>, and \<open>-1\<close> when there is none.\<close>

definition rfind :: "char \<Rightarrow> string \<Rightarrow> int" where
  "rfind c s = (case filter (\<lambda>i. s ! i = c) (rev [0 ..< length s]) of
                  [] \<Rightarrow> - 1 | i # _ \<Rightarrow> int i)"

text \<open>
  \<open>_create_snippet\<close>, always called with its default \<open>max_length = 200\<close>, for which
  \<open>max_length * 0.8\<close> is 160. One round of its loop, then the function.
\<close>

definition snippet_step :: "string list \<Rightarrow> string \<Rightarrow> nat \<times> nat \<Rightarrow> nat \<Rightarrow> nat \<times> nat" where
  "snippet_step query_terms document_lower best i =
     (let window = take 200 (drop i document_lower);
          score = length (filter (\<lambda>term. str_in term window) query_terms)
      in if score > snd best then (i, score) else best)"

definition create_snippet :: "string \<Rightarrow> string \<Rightarrow> string" where
  "create_snippet document q =
     (let query_terms = split (lower q);
          document_lower = lower document;
          best_pos = fst (foldl (snippet_step query_terms document_lower) (0, 0)
                            [0 ..< length document + 1 - 200]);
          window = take 200 (drop best_pos document)
      in if length window = 200 \<and> best_pos + 200 < length document
         then (let last_space = rfind CHR '' '' window
               in if last_space > 160 then take (nat last_space) window @ ''...''
                  else window @ ''...'')
         else window)"

text \<open>
  The construction of one \<open>SearchResult\<close>, with the snippet given: \<open>EmailCategory(...)\<close>
  raises for a category that is no member, and the validation rejects a score above 1
  and a timestamp that is no date.
\<close>

definition make_result :: "'a engine_scheme \<Rightarrow> 'b hit_scheme \<Rightarrow> string \<Rightarrow> search_error + SearchResult" where
  "make_result e h snip =
     (let similarity = max 0 (one_minus e (hit_distance h))
      in case EmailCategory_of (dict_get (hit_metadata h) ''category'' ''general'') of
           None \<Rightarrow> Inl InvalidResult
         | Some cat \<Rightarrow>
             if similarity \<le> 1 \<and> valid_datetime e (dict_get (hit_metadata h) ''timestamp'' [])
             then Inr \<lparr>email_id = hit_id h,
                       result_subject = dict_get (hit_metadata h) ''subject'' [],
                       snippet = snip, similarity_score = similarity,
                       result_category = cat,
                       timestamp = dict_get (hit_metadata h) ''timestamp'' []\<rparr>
             else Inl InvalidResult)"

text \<open>The loop of \<open>search\<close> over the neighbours: the first exception ends it.\<close>

fun search_results :: "'a engine_scheme \<Rightarrow> string \<Rightarrow> 'b hit_scheme list \<Rightarrow> search_error + SearchResult list" where
  "search_results e q [] = Inr []"
| "search_results e q (h # hs) =
     (case make_result e h (create_snippet (hit_document h) q) of
        Inl err \<Rightarrow> Inl err
      | Inr r \<Rightarrow> (case search_results e q hs of Inl err \<Rightarrow> Inl err | Inr rs \<Rightarrow> Inr (r # rs)))"

text \<open>
  \<open>search\<close>: every exception is logged and raised again. The \<open>where\<close> filter holds
  the category when the query has one; the date filters are read and not used.
\<close>

definition where_clause :: "'b SearchQuery_scheme \<Rightarrow> (string \<times> string) list option" where
  "where_clause q = (case category_filter q of
                       None \<Rightarrow> None
                     | Some c \<Rightarrow> Some [(''category'', category_value c)])"

definition search :: "'a engine_scheme \<Rightarrow> 'b SearchQuery_scheme \<Rightarrow> (search_error + SearchOutput) \<times> call list" where
  "search e q =
     (case embeddings_create e (query q) of
        None \<Rightarrow> (Inl EmbeddingFailed, [Embed (query q)])
      | Some query_embedding \<Rightarrow>
         (let calls = [Embed (query q), Query query_embedding (limit q) (where_clause q)]
          in case collection_query e query_embedding (limit q) (where_clause q) of
               None \<Rightarrow> (Inl IndexFailed, calls)
             | Some hits \<Rightarrow>
                (case search_results e (query q) hits of
                   Inl err \<Rightarrow> (Inl err, calls)
                 | Inr rs \<Rightarrow> (Inr \<lparr>results = rs, total_count = length rs\<rparr>, calls))))"

text \<open>The loop of \<open>find_similar\<close>: the neighbour with the id asked for is passed over.\<close>

fun similar_results :: "'a engine_scheme \<Rightarrow> string \<Rightarrow> 'b hit_scheme list \<Rightarrow> search_error + SearchResult list" where
  "similar_results e i [] = Inr []"
| "similar_results e i (h # hs) =
     (if hit_id h \<noteq> i
      then (case make_result e h (truncate_to 200 (hit_document h)) of
              Inl err \<Rightarrow> Inl err
            | Inr r \<Rightarrow> (case similar_results e i hs of Inl err \<Rightarrow> Inl err | Inr rs \<Rightarrow> Inr (r # rs)))
      else similar_results e i hs)"

text \<open>
  \<open>find_similar\<close>: every exception is logged and the empty list is returned, so that
  the result is never an error (\<open>Inl\<close>).
\<close>

definition find_similar :: "'a engine_scheme \<Rightarrow> string \<Rightarrow> int \<Rightarrow> (search_error + SearchResult list) \<times> call list" where
  "find_similar e i limit' =
     (case collection_get e i of
        None \<Rightarrow> (Inr [], [Get i])
      | Some (ids, embeddings) \<Rightarrow>
          if ids = [] then (Inr [], [Get i])
          else (case embeddings of
                  [] \<Rightarrow> (Inr [], [Get i])
                | embedding # _ \<Rightarrow>
                   (case collection_query e embedding (limit' + 1) None of
                      None \<Rightarrow> (Inr [], [Get i, Query embedding (limit' + 1) None])
                    | Some hits \<Rightarrow>
                       (case similar_results e i hits of
                          Inl err \<Rightarrow> (Inr [], [Get i, Query embedding (limit' + 1) None])
                        | Inr rs \<Rightarrow>
                            (Inr (slice_to limit' rs), [Get i, Query embedding (limit' + 1) None])))))"


subsection \<open>Engines to run the operations on\<close>

definition demo_hits :: "hit list" where
  "demo_hits =
     [\<lparr>hit_id = ''a'', hit_document = ''refund for order 17'',
       hit_metadata = [(''subject'', ''Refund''), (''category'', ''billing''),
                       (''timestamp'', ''2024-01-01'')],
       hit_distance = 0\<rparr>,
      \<lparr>hit_id = ''b'', hit_document = ''refund not received'',
       hit_metadata = [(''category'', ''billing''), (''timestamp'', ''2024-01-02'')],
       hit_distance = 0.25\<rparr>,
      \<lparr>hit_id = ''c'', hit_document = ''where is my parcel'',
       hit_metadata = [(''subject'', ''Parcel''), (''timestamp'', ''2024-01-03'')],
       hit_distance = 1.5\<rparr>]"

text \<open>
  An index that holds the email \<open>a\<close> and answers with the nearest of three neighbours.
  On the distances of these neighbours the subtraction from 1 is exact.
\<close>

definition demo_engine :: engine where
  "demo_engine =
     \<lparr>embeddings_create = (\<lambda>t. Some [1, 0]),
      collection_get = (\<lambda>i. if i = ''a'' then Some ([''a''], [[1, 0]]) else Some ([], [])),
      collection_query = (\<lambda>emb n w. Some (take (nat n) demo_hits)),
      valid_datetime = (\<lambda>s. s \<noteq> []),
      one_minus = (\<lambda>d. 1 - d)\<rparr>"

text \<open>An engine whose services all raise.\<close>

definition broken_engine :: engine where
  "broken_engine =
     \<lparr>embeddings_create = (\<lambda>t. None),
      collection_get = (\<lambda>i. None),
      collection_query = (\<lambda>emb n w. None),
      valid_datetime = (\<lambda>s. s \<noteq> []),
      one_minus = (\<lambda>d. 1 - d)\<rparr>"

text \<open>An engine whose index raises on every neighbour query.\<close>

definition index_down_engine :: engine where
  "index_down_engine =
     \<lparr>embeddings_create = (\<lambda>t. Some [1, 0]),
      collection_get = (\<lambda>i. Some ([i], [[1, 0]])),
      collection_query = (\<lambda>emb n w. None),
      valid_datetime = (\<lambda>s. s \<noteq> []),
      one_minus = (\<lambda>d. 1 - d)\<rparr>"


definition demo_query :: SearchQuery where
  "demo_query = \<lparr>query = ''refund'', limit = 2, category_filter = Some BILLING,
                  date_from = None, date_to = None\<rparr>"


subsection \<open>Emails, completion services and clients to run the classifiers on\<close>

definition demo_email :: EmailRequest where
  "demo_email = \<lparr>subject = ''Invoice question'', body = ''I was charged twice, please help.'',
                  sender = ''ann@example.com'', attachments = [], metadata = []\<rparr>"

text \<open>
  Completion services: one that answers with a category outside the enumeration, one
  that does so and gives no confidence, one that answers with a category of the
  enumeration, and one that is down.
\<close>

definition spam_service :: llm_service where
  "spam_service n prompt =
     Object \<lparr>ai_category = Some ''spam'', ai_subcategory = None, ai_confidence = Some 0.9\<rparr>"

definition unsure_service :: llm_service where
  "unsure_service n prompt =
     Object \<lparr>ai_category = Some ''spam'', ai_subcategory = None, ai_confidence = None\<rparr>"

definition billing_service :: llm_service where
  "billing_service n prompt =
     Object \<lparr>ai_category = Some ''billing'', ai_subcategory = None, ai_confidence = Some 0.9\<rparr>"

definition down_service :: llm_service where
  "down_service n prompt = Unavailable"

text \<open>
  Clients of the batch classifier: one that always raises; one that raises twice and then
  answers, with no-break spaces around the category; one that answers with a word that
  is no category; and one whose responses carry a category and a \<open>usage\<close> that is
  \<open>None\<close>.
\<close>

definition down_client :: client where
  "down_client n prompt = Raises"


definition spam_client :: client where
  "spam_client n prompt = Replies (Some ''spam'') (Usage 120 1 121)"

definition usage_none_client :: client where
  "usage_none_client n prompt = Replies (Some ''order'') UsageNone"

text \<open>The prompts of the requests among the events.\<close>

fun requests :: "event list \<Rightarrow> string list" where
  "requests [] = []"
| "requests (Request p # es) = p # requests es"
| "requests (Sleep d # es) = requests es"

subsection \<open>What the claims about the text analysis speak of\<close>

text \<open>
  A keyword occurs in a text without regard to case when some stretch of the text is the
  keyword once both are in lower case.
\<close>

definition occurs_ignoring_case :: "string \<Rightarrow> string \<Rightarrow> bool" where
  "occurs_ignoring_case keyword t =
     (\<exists>pre mid post. t = pre @ mid @ post \<and> lower mid = lower keyword)"

text \<open>
  The other reading of a count of occurrences, which the code does not implement: the
  number of places of the text at which a keyword starts, summed over the keywords, so
  that a keyword that occurs three times counts three times.
\<close>

fun occurrences :: "string \<Rightarrow> string \<Rightarrow> nat" where
  "occurrences w [] = (if w = [] then 1 else 0)"
| "occurrences w (c # t) = (if startswith (c # t) w then 1 else 0) + occurrences w t"

definition sentiment_by_occurrences :: "string \<Rightarrow> EmailSentiment" where
  "sentiment_by_occurrences text =
     (let text_lower = lower text;
          positive_count = sum_list (map (\<lambda>w. occurrences w text_lower) positive_keywords);
          negative_count = sum_list (map (\<lambda>w. occurrences w text_lower) negative_keywords)
      in if positive_count > negative_count then POSITIVE
         else if negative_count > positive_count then NEGATIVE
         else NEUTRAL)"

definition urgent_email :: EmailRequest where
  "urgent_email = \<lparr>subject = ''URGENT: System is down!'',
                    body = ''Our production system is completely broken. Please help!'',
                    sender = ''admin@company.com'', attachments = [], metadata = []\<rparr>"

definition complaint_email :: EmailRequest where
  "complaint_email = \<lparr>subject = ''Terrible service'',
                       body = ''I am very disappointed with your service.'',
                       sender = ''angry@customer.com'', attachments = [], metadata = []\<rparr>"

definition reply_with :: "string \<Rightarrow> ai_classification" where
  "reply_with c = \<lparr>ai_category = Some c, ai_subcategory = None, ai_confidence = Some 0.9\<rparr>"

text \<open>Three texts to extract entities from.\<close>

definition claim_text :: string where
  "claim_text = ''contact me at john.doe@example.com or 555-123-4567, order #12345, charged $49.99''"

definition repeated_text :: string where
  "repeated_text = ''$5 and $5 again for order #12345 and ORDER-67890''"

definition money_first_text :: string where
  "money_first_text = ''charged $5, write to a@b.co''"

text \<open>
  The place at which a word is first seen in a list of words, and the order of the
  keywords: the more frequent word first, and of two words of equal frequency the one
  that is first seen earlier.
\<close>

definition first_seen :: "string list \<Rightarrow> string \<Rightarrow> nat" where
  "first_seen ws w = length (takeWhile (\<lambda>x. x \<noteq> w) ws)"

definition ranks_before :: "string list \<Rightarrow> string \<Rightarrow> string \<Rightarrow> bool" where
  "ranks_before ws a b =
     (count_list ws a > count_list ws b \<or>
      (count_list ws a = count_list ws b \<and> first_seen ws a < first_seen ws b))"

definition pets_text :: string where
  "pets_text = ''The cat and the dog; the Cat sat. Dog dog bird fish fish''"

section \<open>Properties of the semantic search\<close>

lemma slice_to_nonneg: "0 \<le> n \<Longrightarrow> slice_to n xs = take (nat n) xs"
  by (simp add: slice_to_def)










text \<open>
  C10. When the index holds nothing under the id (its \<open>get\<close> answers with no ids),
  \<open>find_similar\<close> returns the empty list, raises nothing, and its only call to the
  services is that \<open>get\<close>: no neighbour query is made.
\<close>

theorem find_similar_absent:
  "collection_get e i = Some ([], embeddings) \<Longrightarrow> find_similar e i limit' = (Inr [], [Get i])"
  by (simp add: find_similar_def)

theorem find_similar_absent_witness:
  "collection_get demo_engine ''z'' = Some ([], []) \<and>
   find_similar demo_engine ''z'' 5 = (Inr [], [Get ''z''])"
  using find_similar_absent [of demo_engine "''z''" "[]" 5]
  by (simp add: demo_engine_def)














text \<open>
  C8, as amended. In \<open>search\<close> a failure of the embedding service or of the index is
  returned to the caller as an error, after one call to the service that failed and with
  no second attempt. In \<open>find_similar\<close> a failure of the index, in the lookup of the
  email or in the neighbour query, is not returned as an error: the result is the empty
  list, again with no second attempt.
\<close>

theorem failures_of_search:
  "(embeddings_create e (query q) = None \<longrightarrow>
      search e q = (Inl EmbeddingFailed, [Embed (query q)])) \<and>
   (\<forall>emb. embeddings_create e (query q) = Some emb \<and>
        collection_query e emb (limit q) (where_clause q) = None \<longrightarrow>
      search e q = (Inl IndexFailed, [Embed (query q), Query emb (limit q) (where_clause q)])) \<and>
   (collection_get e i = None \<longrightarrow> find_similar e i limit' = (Inr [], [Get i])) \<and>
   (\<forall>ids emb embs. collection_get e i = Some (ids, emb # embs) \<and> ids \<noteq> [] \<and>
        collection_query e emb (limit' + 1) None = None \<longrightarrow>
      find_similar e i limit' = (Inr [], [Get i, Query emb (limit' + 1) None]))"
  by (simp add: search_def find_similar_def)

theorem failures_of_search_witness:
  "embeddings_create broken_engine (query demo_query) = None \<and>
   search broken_engine demo_query = (Inl EmbeddingFailed, [Embed ''refund'']) \<and>
   embeddings_create index_down_engine (query demo_query) = Some [1, 0] \<and>
   collection_query index_down_engine [1, 0] (limit demo_query) (where_clause demo_query) = None \<and>
   search index_down_engine demo_query
     = (Inl IndexFailed, [Embed ''refund'', Query [1, 0] 2 (Some [(''category'', ''billing'')])]) \<and>
   collection_get broken_engine ''a'' = None \<and>
   find_similar broken_engine ''a'' 5 = (Inr [], [Get ''a'']) \<and>
   collection_get index_down_engine ''a'' = Some ([''a''], [[1, 0]]) \<and>
   collection_query index_down_engine [1, 0] (5 + 1) None = None \<and>
   find_similar index_down_engine ''a'' 5 = (Inr [], [Get ''a'', Query [1, 0] (5 + 1) None])"
  using failures_of_search [of broken_engine demo_query "''a''" 5]
    failures_of_search [of index_down_engine demo_query "''a''" 5]
  by (simp add: broken_engine_def index_down_engine_def demo_query_def where_clause_def)

text \<open>
  C8 as stated fails: with an index that raises on the lookup, \<open>find_similar\<close>
  returns the empty list as a normal result.
\<close>

theorem find_similar_swallows_failure:
  "collection_get broken_engine ''a'' = None \<and>
   find_similar broken_engine ''a'' 5 = (Inr [], [Get ''a''])"
  by (simp add: broken_engine_def find_similar_def)

section \<open>Properties of the classifiers\<close>

declare classify_email.simps [simp del]

lemma truncate_to_idem: "truncate_to n (truncate_to n s) = truncate_to n s"
  by (simp add: truncate_to_def)

lemma read_category_Replies:
  "u \<noteq> UsageNone \<Longrightarrow> read_category (Replies (Some content) u) = Some (lower (strip content))"
  by (cases u) simp_all

lemma classify_email_reads:
  "read_category (client n (classification_prompt (truncate_to 200 (as_text s)) (truncate_to 2000 (as_text b)))) = Some c \<Longrightarrow>
   classify_email client n s b r =
     (if c \<notin> set VALID_CATEGORIES then DEFAULT_CATEGORY else c, [Request (classification_prompt (truncate_to 200 (as_text s)) (truncate_to 2000 (as_text b)))])"
  by (subst classify_email.simps) simp

lemma classify_email_gives_up:
  "read_category (client n (classification_prompt (truncate_to 200 (as_text s)) (truncate_to 2000 (as_text b)))) = None \<Longrightarrow> \<not> r < MAX_RETRIES - 1 \<Longrightarrow>
   classify_email client n s b r = (DEFAULT_CATEGORY, [Request (classification_prompt (truncate_to 200 (as_text s)) (truncate_to 2000 (as_text b)))])"
  by (subst classify_email.simps) simp

lemma classify_email_retries:
  "read_category (client n (classification_prompt (truncate_to 200 (as_text s)) (truncate_to 2000 (as_text b)))) = None \<Longrightarrow> r < MAX_RETRIES - 1 \<Longrightarrow>
   classify_email client n s b r =
     (fst (classify_email client (Suc n) (Str (truncate_to 200 (as_text s)))
             (Str (truncate_to 2000 (as_text b))) (r + 1)),
      Request (classification_prompt (truncate_to 200 (as_text s)) (truncate_to 2000 (as_text b)))
      # Sleep RETRY_DELAY
      # snd (classify_email client (Suc n) (Str (truncate_to 200 (as_text s)))
             (Str (truncate_to 2000 (as_text b))) (r + 1)))"
  by (subst classify_email.simps) (simp split: prod.splits)

lemma classify_email_category:
  "fst (classify_email client n s b r) \<in> set VALID_CATEGORIES"
proof (induction client n s b r rule: classify_email.induct)
  case (1 client n s b r)
  let ?p = "(classification_prompt (truncate_to 200 (as_text s)) (truncate_to 2000 (as_text b)))"
  show ?case
  proof (cases "read_category (client n ?p)")
    case (Some c)
    then show ?thesis
      by (simp add: classify_email_reads VALID_CATEGORIES_def DEFAULT_CATEGORY_def)
  next
    case None
    show ?thesis
    proof (cases "r < MAX_RETRIES - 1")
      case True
      with None "1.IH" show ?thesis
        by (simp add: classify_email_retries)
    next
      case False
      with None show ?thesis
        by (simp add: classify_email_gives_up VALID_CATEGORIES_def DEFAULT_CATEGORY_def)
    qed
  qed
qed


lemma EmailCategory_of_Some: "EmailCategory_of s = Some c \<Longrightarrow> category_value c = s"
  by (auto simp: EmailCategory_of_def find_Some_iff)

lemma EmailCategory_of_None:
  "EmailCategory_of s = None \<longleftrightarrow> s \<notin> set (map category_value all_categories)"
  by (auto simp: EmailCategory_of_def find_None_iff)

lemma make_classification_Inr:
  "make_classification ai p s ks es = Inr c \<Longrightarrow>
     ai_category ai = Some (category_value (category c))"
  by (auto simp: make_classification_def split: option.splits if_splits
      dest: EmailCategory_of_Some)

lemma make_classification_unknown:
  "ai_category ai = Some s \<Longrightarrow> s \<notin> set (map category_value all_categories) \<Longrightarrow>
     make_classification ai p sent ks es =
       (case ai_confidence ai of None \<Rightarrow> Inl (KeyError ''confidence'')
        | Some x \<Rightarrow> Inl ValidationError)"
  using EmailCategory_of_None [of s]
  by (auto simp: make_classification_def split: option.splits)

lemma processor_one_request:
  "snd (EmailProcessor_classify_email create k email)
     = [build_classification_prompt (email_content email)]"
  by (simp add: EmailProcessor_classify_email_def LLMClient_classify_email_def Let_def
      split: llm_outcome.splits)

text \<open>
  C1, as amended. The batch classifier always returns one of its three categories, and
  when the response carries a text that, stripped and in lower case, is no category
  (and a usage that can be read), it returns the default category after that one
  request. The email processor does not substitute a default: when it returns a
  classification, the category is the member of \<open>EmailCategory\<close> whose value the
  completion service gave; when the service gives a category that is no member, the
  processor raises, after its one request: a validation error when the reply has a
  confidence, and \<open>KeyError\<close> for the missing entry when it has none.
\<close>

theorem classifier_category_in_enum:
  "fst (classify_email client n s b r) \<in> set VALID_CATEGORIES \<and>
   (\<forall>content u.
      client n (classification_prompt (truncate_to 200 (as_text s)) (truncate_to 2000 (as_text b))) = Replies (Some content) u \<and> u \<noteq> UsageNone \<and>
      lower (strip content) \<notin> set VALID_CATEGORIES \<longrightarrow>
      classify_email client n s b r = (DEFAULT_CATEGORY, [Request (classification_prompt (truncate_to 200 (as_text s)) (truncate_to 2000 (as_text b)))])) \<and>
   (\<forall>c. fst (EmailProcessor_classify_email create k email) = Inr c \<longrightarrow>
      (\<exists>ai. create k (build_classification_prompt (email_content email)) = Object ai \<and>
            ai_category ai = Some (category_value (category c)))) \<and>
   (\<forall>ai v. create k (build_classification_prompt (email_content email)) = Object ai \<and>
      ai_category ai = Some v \<and> v \<notin> set (map category_value all_categories) \<longrightarrow>
      EmailProcessor_classify_email create k email =
        (case ai_confidence ai of None \<Rightarrow> Inl (KeyError ''confidence'')
         | Some x \<Rightarrow> Inl ValidationError,
         [build_classification_prompt (email_content email)]))"
proof (intro conjI allI impI)
  show "fst (classify_email client n s b r) \<in> set VALID_CATEGORIES"
    by (rule classify_email_category)
next
  fix content u
  assume "client n (classification_prompt (truncate_to 200 (as_text s)) (truncate_to 2000 (as_text b))) = Replies (Some content) u \<and> u \<noteq> UsageNone \<and>
          lower (strip content) \<notin> set VALID_CATEGORIES"
  then show "classify_email client n s b r = (DEFAULT_CATEGORY, [Request (classification_prompt (truncate_to 200 (as_text s)) (truncate_to 2000 (as_text b)))])"
    by (simp add: classify_email_reads read_category_Replies)
next
  fix c
  assume "fst (EmailProcessor_classify_email create k email) = Inr c"
  then show "\<exists>ai. create k (build_classification_prompt (email_content email)) = Object ai \<and>
            ai_category ai = Some (category_value (category c))"
    by (auto simp: EmailProcessor_classify_email_def LLMClient_classify_email_def Let_def
        split: llm_outcome.splits dest: make_classification_Inr)
next
  fix ai v
  assume "create k (build_classification_prompt (email_content email)) = Object ai \<and>
      ai_category ai = Some v \<and> v \<notin> set (map category_value all_categories)"
  then show "EmailProcessor_classify_email create k email =
        (case ai_confidence ai of None \<Rightarrow> Inl (KeyError ''confidence'')
         | Some x \<Rightarrow> Inl ValidationError,
         [build_classification_prompt (email_content email)])"
    using make_classification_unknown [of ai v]
    by (simp add: EmailProcessor_classify_email_def LLMClient_classify_email_def Let_def)
qed


lemma spam_plain: "lower (strip ''spam'') = ''spam''"
  by code_simp

theorem classifier_category_in_enum_witness:
  "fst (classify_email spam_client 0 (Str ''Hello'') PyNone 0) \<in> set VALID_CATEGORIES \<and>
   spam_client 0 (classification_prompt (truncate_to 200 (as_text (Str ''Hello'')))
                    (truncate_to 2000 (as_text PyNone)))
     = Replies (Some ''spam'') (Usage 120 1 121) \<and>
   lower (strip ''spam'') \<notin> set VALID_CATEGORIES \<and>
   classify_email spam_client 0 (Str ''Hello'') PyNone 0
     = (''other'', [Request (classification_prompt ''Hello'' [])]) \<and>
   (\<exists>c. fst (EmailProcessor_classify_email billing_service 0 demo_email) = Inr c \<and>
        category c = BILLING) \<and>
   ''spam'' \<notin> set (map category_value all_categories) \<and>
   EmailProcessor_classify_email spam_service 0 demo_email
     = (Inl ValidationError, [build_classification_prompt (email_content demo_email)]) \<and>
   EmailProcessor_classify_email unsure_service 0 demo_email
     = (Inl (KeyError ''confidence''), [build_classification_prompt (email_content demo_email)])"
proof -
  have rich: "\<exists>c. fst (EmailProcessor_classify_email billing_service 0 demo_email) = Inr c \<and>
                category c = BILLING"
    by (simp add: EmailProcessor_classify_email_def LLMClient_classify_email_def Let_def
        billing_service_def make_classification_def EmailCategory_of_def all_categories_def)
  from classifier_category_in_enum [of spam_client 0 "Str ''Hello''" PyNone 0 spam_service 0 demo_email]
    classifier_category_in_enum [of spam_client 0 "Str ''Hello''" PyNone 0 unsure_service 0 demo_email]
    spam_plain rich
  show ?thesis
    by (simp add: spam_client_def spam_service_def unsure_service_def VALID_CATEGORIES_def
        DEFAULT_CATEGORY_def all_categories_def truncate_to_def)
qed

text \<open>
  C1 as stated fails for the email processor: the service answers \<open>spam\<close>, which is
  no member of \<open>EmailCategory\<close>, and the processor raises a validation error.
\<close>

theorem processor_rejects_unknown_category:
  "spam_service 0 (build_classification_prompt (email_content demo_email))
     = Object \<lparr>ai_category = Some ''spam'', ai_subcategory = None, ai_confidence = Some 0.9\<rparr> \<and>
   EmailCategory_of ''spam'' = None \<and>
   EmailProcessor_classify_email spam_service 0 demo_email
     = (Inl ValidationError, [build_classification_prompt (email_content demo_email)])"
  by (simp add: EmailProcessor_classify_email_def LLMClient_classify_email_def Let_def
      spam_service_def make_classification_def EmailCategory_of_def all_categories_def)

text \<open>
  C2, as amended. When the three attempts of the batch classifier all fail (the request
  raises, or the response cannot be read), it returns the default category, having
  paused one second after the first and after the second. The \<open>LLMClient\<close> and the
  email processor make exactly one request, whatever its outcome, and have no default:
  when that request raises, they raise.
\<close>

theorem retry_exhaustion:
  "(read_category (client n (classification_prompt (truncate_to 200 (as_text s)) (truncate_to 2000 (as_text b)))) = None \<and>
    read_category (client (Suc n) (classification_prompt (truncate_to 200 (as_text s)) (truncate_to 2000 (as_text b)))) = None \<and>
    read_category (client (Suc (Suc n)) (classification_prompt (truncate_to 200 (as_text s)) (truncate_to 2000 (as_text b)))) = None \<longrightarrow>
    classify_email client n s b 0 =
      (DEFAULT_CATEGORY,
       [Request (classification_prompt (truncate_to 200 (as_text s)) (truncate_to 2000 (as_text b))), Sleep 1, Request (classification_prompt (truncate_to 200 (as_text s)) (truncate_to 2000 (as_text b))), Sleep 1, Request (classification_prompt (truncate_to 200 (as_text s)) (truncate_to 2000 (as_text b)))])) \<and>
   snd (LLMClient_classify_email create k content) = [build_classification_prompt content] \<and>
   snd (EmailProcessor_classify_email create k email)
     = [build_classification_prompt (email_content email)] \<and>
   (create k (build_classification_prompt content) = Unavailable \<longrightarrow>
    LLMClient_classify_email create k content
      = (Inl CompletionError, [build_classification_prompt content])) \<and>
   (create k (build_classification_prompt (email_content email)) = Unavailable \<longrightarrow>
    EmailProcessor_classify_email create k email
      = (Inl CompletionError, [build_classification_prompt (email_content email)]))"
proof (intro conjI impI)
  assume "read_category (client n (classification_prompt (truncate_to 200 (as_text s)) (truncate_to 2000 (as_text b)))) = None \<and>
    read_category (client (Suc n) (classification_prompt (truncate_to 200 (as_text s)) (truncate_to 2000 (as_text b)))) = None \<and>
    read_category (client (Suc (Suc n)) (classification_prompt (truncate_to 200 (as_text s)) (truncate_to 2000 (as_text b)))) = None"
  then show "classify_email client n s b 0 =
      (DEFAULT_CATEGORY,
       [Request (classification_prompt (truncate_to 200 (as_text s)) (truncate_to 2000 (as_text b))), Sleep 1, Request (classification_prompt (truncate_to 200 (as_text s)) (truncate_to 2000 (as_text b))), Sleep 1, Request (classification_prompt (truncate_to 200 (as_text s)) (truncate_to 2000 (as_text b)))])"
    by (simp add: classify_email_retries classify_email_gives_up truncate_to_idem
        MAX_RETRIES_def RETRY_DELAY_def)
next
  show "snd (LLMClient_classify_email create k content) = [build_classification_prompt content]"
    by (simp add: LLMClient_classify_email_def split: llm_outcome.splits)
next
  show "snd (EmailProcessor_classify_email create k email)
     = [build_classification_prompt (email_content email)]"
    by (rule processor_one_request)
next
  assume "create k (build_classification_prompt content) = Unavailable"
  then show "LLMClient_classify_email create k content
      = (Inl CompletionError, [build_classification_prompt content])"
    by (simp add: LLMClient_classify_email_def)
next
  assume "create k (build_classification_prompt (email_content email)) = Unavailable"
  then show "EmailProcessor_classify_email create k email
      = (Inl CompletionError, [build_classification_prompt (email_content email)])"
    by (simp add: EmailProcessor_classify_email_def LLMClient_classify_email_def)
qed

theorem retry_exhaustion_witness:
  "down_client 0 (classification_prompt ''Hello'' []) = Raises \<and>
   read_category Raises = None \<and>
   classify_email down_client 0 (Str ''Hello'') PyNone 0 =
      (''other'',
       [Request (classification_prompt ''Hello'' []), Sleep 1,
        Request (classification_prompt ''Hello'' []), Sleep 1,
        Request (classification_prompt ''Hello'' [])]) \<and>
   usage_none_client 0 (classification_prompt ''Hello'' []) = Replies (Some ''order'') UsageNone \<and>
   read_category (Replies (Some ''order'') UsageNone) = None \<and>
   classify_email usage_none_client 0 (Str ''Hello'') PyNone 0 =
      (''other'',
       [Request (classification_prompt ''Hello'' []), Sleep 1,
        Request (classification_prompt ''Hello'' []), Sleep 1,
        Request (classification_prompt ''Hello'' [])]) \<and>
   down_service 0 (build_classification_prompt (email_content demo_email)) = Unavailable \<and>
   LLMClient_classify_email down_service 0 (email_content demo_email)
     = (Inl CompletionError, [build_classification_prompt (email_content demo_email)]) \<and>
   EmailProcessor_classify_email down_service 0 demo_email
     = (Inl CompletionError, [build_classification_prompt (email_content demo_email)])"
  using retry_exhaustion [of down_client 0 "Str ''Hello''" PyNone down_service 0
      "email_content demo_email" demo_email]
    retry_exhaustion [of usage_none_client 0 "Str ''Hello''" PyNone down_service 0
      "email_content demo_email" demo_email]
  by (simp add: down_client_def usage_none_client_def down_service_def DEFAULT_CATEGORY_def
      truncate_to_def)

text \<open>
  C2 as stated fails for the email processor: with the completion service down, the
  classification is an error after one request, not the default category.
\<close>

theorem processor_raises_when_service_down:
  "down_service 0 (build_classification_prompt (email_content demo_email)) = Unavailable \<and>
   EmailProcessor_classify_email down_service 0 demo_email
     = (Inl CompletionError, [build_classification_prompt (email_content demo_email)])"
  by (simp add: EmailProcessor_classify_email_def LLMClient_classify_email_def down_service_def)



section \<open>Properties of the text analysis\<close>

lemma startswith_iff: "startswith t w \<longleftrightarrow> (\<exists>post. t = w @ post)"
  by (induction t w rule: startswith.induct) auto

lemma str_in_iff: "str_in w t \<longleftrightarrow> (\<exists>pre post. t = pre @ w @ post)"
proof (induction t)
  case Nil
  then show ?case by auto
next
  case (Cons c t)
  show ?case
  proof
    assume "str_in w (c # t)"
    then consider "startswith (c # t) w" | "str_in w t" by auto
    then show "\<exists>pre post. c # t = pre @ w @ post"
    proof cases
      case 1
      then obtain post where "c # t = w @ post" by (auto simp: startswith_iff)
      then have "c # t = [] @ w @ post" by simp
      then show ?thesis by blast
    next
      case 2
      with Cons obtain pre post where "t = pre @ w @ post" by blast
      then have "c # t = (c # pre) @ w @ post" by simp
      then show ?thesis by blast
    qed
  next
    assume "\<exists>pre post. c # t = pre @ w @ post"
    then obtain pre post where eq: "c # t = pre @ w @ post" by blast
    show "str_in w (c # t)"
    proof (cases pre)
      case Nil
      with eq have "startswith (c # t) w" by (auto simp: startswith_iff)
      then show ?thesis by simp
    next
      case (Cons d pre')
      with eq have "t = pre' @ w @ post" by simp
      with Cons.IH have "str_in w t" by blast
      then show ?thesis by simp
    qed
  qed
qed

lemma map_eq_middle:
  assumes "map f t = pre @ w @ post"
  shows "\<exists>a b c. t = a @ b @ c \<and> map f b = w"
proof -
  let ?b = "take (length w) (drop (length pre) t)"
  have "t = take (length pre) t @ drop (length pre) t"
    by simp
  also have "drop (length pre) t = ?b @ drop (length w) (drop (length pre) t)"
    by (simp only: append_take_drop_id)
  finally have "t = take (length pre) t @ ?b @ drop (length w) (drop (length pre) t)" .
  moreover have "map f ?b = take (length w) (drop (length pre) (map f t))"
    by (simp add: take_map drop_map)
  then have "map f ?b = w"
    using assms by simp
  ultimately show ?thesis by blast
qed

lemma occurs_iff_str_in:
  "occurs_ignoring_case keyword t \<longleftrightarrow> str_in (lower keyword) (lower t)"
proof
  assume "occurs_ignoring_case keyword t"
  then obtain pre mid post where "t = pre @ mid @ post" "lower mid = lower keyword"
    by (auto simp: occurs_ignoring_case_def)
  then have "lower t = lower pre @ lower keyword @ lower post"
    by (simp add: lower_def)
  then show "str_in (lower keyword) (lower t)"
    unfolding str_in_iff by blast
next
  assume "str_in (lower keyword) (lower t)"
  then obtain pre post where "map lower_char t = pre @ lower keyword @ post"
    unfolding str_in_iff lower_def by blast
  from map_eq_middle [OF this]
  obtain a b c where "t = a @ b @ c" "map lower_char b = lower keyword"
    by blast
  then show "occurs_ignoring_case keyword t"
    unfolding occurs_ignoring_case_def lower_def by blast
qed

lemma urgent_keywords_lower: "map lower urgent_keywords = urgent_keywords"
  by code_simp

lemma positive_keywords_lower: "map lower positive_keywords = positive_keywords"
  by code_simp

lemma negative_keywords_lower: "map lower negative_keywords = negative_keywords"
  by code_simp

lemma keyword_lower: "map lower ks = ks \<Longrightarrow> k \<in> set ks \<Longrightarrow> lower k = k"
  by (induction ks) auto

lemma list_ex_keywords:
  assumes "map lower ks = ks"
  shows "list_ex (\<lambda>k. str_in k (lower t)) ks \<longleftrightarrow> (\<exists>k \<in> set ks. occurs_ignoring_case k t)"
  using keyword_lower [OF assms] by (auto simp: list_ex_iff occurs_iff_str_in)

lemma count_present_card:
  assumes "map lower ks = ks" and "distinct ks"
  shows "count_present ks (lower t) = card {k \<in> set ks. occurs_ignoring_case k t}"
proof -
  have "{k \<in> set ks. occurs_ignoring_case k t} = {k \<in> set ks. str_in k (lower t)}"
    using keyword_lower [OF assms(1)] by (auto simp: occurs_iff_str_in)
  moreover have "length (filter (\<lambda>k. str_in k (lower t)) ks) = card {k \<in> set ks. str_in k (lower t)}"
    using assms(2) by (simp add: distinct_length_filter Int_def conj_commute)
  ultimately show ?thesis by (simp add: count_present_def)
qed

lemma occurs_in_part:
  "occurs_ignoring_case k s \<or> occurs_ignoring_case k b \<Longrightarrow> occurs_ignoring_case k (s @ '' '' @ b)"
proof (erule disjE)
  assume "occurs_ignoring_case k s"
  then obtain pre mid post where "s = pre @ mid @ post" "lower mid = lower k"
    by (auto simp: occurs_ignoring_case_def)
  then have "s @ '' '' @ b = pre @ mid @ (post @ '' '' @ b)" by simp
  with \<open>lower mid = lower k\<close> show ?thesis
    unfolding occurs_ignoring_case_def by blast
next
  assume "occurs_ignoring_case k b"
  then obtain pre mid post where "b = pre @ mid @ post" "lower mid = lower k"
    by (auto simp: occurs_ignoring_case_def)
  then have "s @ '' '' @ b = (s @ '' '' @ pre) @ mid @ post" by simp
  with \<open>lower mid = lower k\<close> show ?thesis
    unfolding occurs_ignoring_case_def by blast
qed

text \<open>
  C4. The priority is a function of the email's texts and of the category alone. It is
  URGENT when an urgent keyword occurs, without regard to case, in the subject and the
  body joined by a blank, whatever the category; in particular when one occurs in the
  subject or in the body. Otherwise it is HIGH for the category complaint, MEDIUM for
  technical and for billing, and LOW for every other category and for none.
\<close>

theorem priority_rule:
  "determine_priority email ai =
     (if \<exists>k \<in> set urgent_keywords. occurs_ignoring_case k (subject email @ '' '' @ body email)
      then URGENT
      else if ai_category ai = Some ''complaint'' then HIGH
      else if ai_category ai = Some ''technical'' \<or> ai_category ai = Some ''billing'' then MEDIUM
      else LOW) \<and>
   ((\<exists>k \<in> set urgent_keywords.
        occurs_ignoring_case k (subject email) \<or> occurs_ignoring_case k (body email)) \<longrightarrow>
    determine_priority email ai = URGENT)"
proof -
  have eq: "determine_priority email ai =
     (if \<exists>k \<in> set urgent_keywords. occurs_ignoring_case k (subject email @ '' '' @ body email)
      then URGENT
      else if ai_category ai = Some ''complaint'' then HIGH
      else if ai_category ai = Some ''technical'' \<or> ai_category ai = Some ''billing'' then MEDIUM
      else LOW)"
    by (simp add: determine_priority_def Let_def list_ex_keywords [OF urgent_keywords_lower])
  moreover have "determine_priority email ai = URGENT"
    if "\<exists>k \<in> set urgent_keywords.
        occurs_ignoring_case k (subject email) \<or> occurs_ignoring_case k (body email)"
  proof -
    from that occurs_in_part
    have "\<exists>k \<in> set urgent_keywords. occurs_ignoring_case k (subject email @ '' '' @ body email)"
      by blast
    with eq show ?thesis by simp
  qed
  ultimately show ?thesis by blast
qed

lemma urgent_email_mentions:
  "list_ex (\<lambda>k. str_in k (lower (subject urgent_email @ '' '' @ body urgent_email))) urgent_keywords"
  by code_simp

lemma complaint_email_calm:
  "\<not> list_ex (\<lambda>k. str_in k (lower (subject complaint_email @ '' '' @ body complaint_email))) urgent_keywords"
  by code_simp

theorem priority_rule_witness:
  "list_ex (\<lambda>k. str_in k (lower (subject urgent_email @ '' '' @ body urgent_email)))
     urgent_keywords \<and>
   determine_priority urgent_email (reply_with ''general'') = URGENT \<and>
   \<not> list_ex (\<lambda>k. str_in k (lower (subject complaint_email @ '' '' @ body complaint_email)))
     urgent_keywords \<and>
   determine_priority complaint_email (reply_with ''complaint'') = HIGH \<and>
   determine_priority complaint_email (reply_with ''billing'') = MEDIUM \<and>
   determine_priority complaint_email (reply_with ''technical'') = MEDIUM \<and>
   determine_priority complaint_email (reply_with ''order'') = LOW"
  using priority_rule [of urgent_email "reply_with ''general''"]
    priority_rule [of complaint_email "reply_with ''complaint''"]
    priority_rule [of complaint_email "reply_with ''billing''"]
    priority_rule [of complaint_email "reply_with ''technical''"]
    priority_rule [of complaint_email "reply_with ''order''"]
    urgent_email_mentions complaint_email_calm
  by (simp add: list_ex_keywords [OF urgent_keywords_lower] reply_with_def)

lemma positive_keywords_distinct: "distinct positive_keywords"
  by code_simp

lemma negative_keywords_distinct: "distinct negative_keywords"
  by code_simp

text \<open>
  C5, as amended. The positive count is the number of positive keywords that occur in
  the text, without regard to case, each keyword counted once however often it occurs,
  and the negative count is that number for the negative keywords. The sentiment is
  POSITIVE when the positive count is the greater, NEGATIVE when the negative count is,
  and NEUTRAL when they are equal. The three texts of the claim give POSITIVE, NEGATIVE
  and NEUTRAL.
\<close>

theorem sentiment_rule:
  "analyze_sentiment text =
     (if card {k \<in> set positive_keywords. occurs_ignoring_case k text}
           > card {k \<in> set negative_keywords. occurs_ignoring_case k text} then POSITIVE
      else if card {k \<in> set negative_keywords. occurs_ignoring_case k text}
           > card {k \<in> set positive_keywords. occurs_ignoring_case k text} then NEGATIVE
      else NEUTRAL) \<and>
   analyze_sentiment ''Thank you, excellent service!'' = POSITIVE \<and>
   analyze_sentiment ''This is terrible and broken'' = NEGATIVE \<and>
   analyze_sentiment ''Please provide an update'' = NEUTRAL"
proof (intro conjI)
  show "analyze_sentiment text =
     (if card {k \<in> set positive_keywords. occurs_ignoring_case k text}
           > card {k \<in> set negative_keywords. occurs_ignoring_case k text} then POSITIVE
      else if card {k \<in> set negative_keywords. occurs_ignoring_case k text}
           > card {k \<in> set positive_keywords. occurs_ignoring_case k text} then NEGATIVE
      else NEUTRAL)"
    by (simp add: analyze_sentiment_def Let_def
        count_present_card [OF positive_keywords_lower positive_keywords_distinct]
        count_present_card [OF negative_keywords_lower negative_keywords_distinct])
  show "analyze_sentiment ''Thank you, excellent service!'' = POSITIVE"
    by code_simp
  show "analyze_sentiment ''This is terrible and broken'' = NEGATIVE"
    by code_simp
  show "analyze_sentiment ''Please provide an update'' = NEUTRAL"
    by code_simp
qed

lemma count_great: "count_present positive_keywords (lower ''great great great terrible awful'') = 1"
  by code_simp

lemma count_terrible: "count_present negative_keywords (lower ''great great great terrible awful'') = 2"
  by code_simp

theorem sentiment_rule_witness:
  "card {k \<in> set positive_keywords. occurs_ignoring_case k ''great great great terrible awful''} = 1 \<and>
   card {k \<in> set negative_keywords. occurs_ignoring_case k ''great great great terrible awful''} = 2 \<and>
   analyze_sentiment ''great great great terrible awful'' = NEGATIVE"
  using sentiment_rule [of "''great great great terrible awful''"] count_great count_terrible
  by (simp add: count_present_card [OF positive_keywords_lower positive_keywords_distinct]
        count_present_card [OF negative_keywords_lower negative_keywords_distinct])

text \<open>
  C5 as stated, with counts of occurrences, fails: in this text the positive keywords
  occur three times and the negative ones twice, and the sentiment is NEGATIVE, since
  one positive keyword and two negative ones are present.
\<close>

theorem sentiment_counts_keywords_once:
  "sum_list (map (\<lambda>w. occurrences w (lower ''great great great terrible awful'')) positive_keywords) = 3 \<and>
   sum_list (map (\<lambda>w. occurrences w (lower ''great great great terrible awful'')) negative_keywords) = 2 \<and>
   sentiment_by_occurrences ''great great great terrible awful'' = POSITIVE \<and>
   analyze_sentiment ''great great great terrible awful'' = NEGATIVE"
  by code_simp

subsection \<open>Matches and entities\<close>

text \<open>
  The character classes beyond ASCII at work: a letter with an accent is a word
  character, so that no word boundary lies between it and an ASCII letter, and the
  no-break space and the next-line character are white space.
\<close>

lemma latin1_examples:
  "findall word_pattern (lower (''Caf'' @ [CHR 0xC9] @ '' bar'')) = [''bar''] \<and>
   findall email_pattern ([CHR 0xE9] @ ''a@b.co'') = [] \<and>
   findall_group order_pattern (''order'' @ [CHR 0xA0] @ ''12345'') = [''12345''] \<and>
   strip ([CHR 0xA0, CHR 0x85] @ ''order'' @ [CHR 0x1F]) = ''order''"
  by code_simp

lemma scan_Cons:
  obtains (skip) k' where "scan r i k prev (c # cs) = scan r (Suc i) k' (Some c) cs"
  | (hit) p' rest' g' curs where
      "rmatch r (prev, c # cs, None) = (p', rest', g') # curs"
      "scan r i k prev (c # cs) =
         \<lparr>start = i, matched = take (length (c # cs) - length rest') (c # cs), group1 = g'\<rparr>
         # scan r (Suc i) (length (c # cs) - length rest' - 1) (Some c) cs"
proof (cases "0 < k")
  case True
  then have "scan r i k prev (c # cs) = scan r (Suc i) (k - 1) (Some c) cs" by simp
  then show ?thesis by (rule skip)
next
  case False
  show ?thesis
  proof (cases "rmatch r (prev, c # cs, None)")
    case Nil
    with False have "scan r i k prev (c # cs) = scan r (Suc i) 0 (Some c) cs" by simp
    then show ?thesis by (rule skip)
  next
    case (Cons cur curs)
    obtain p' rest' g' where cur: "cur = (p', rest', g')" by (cases cur)
    from Cons cur have m: "rmatch r (prev, c # cs, None) = (p', rest', g') # curs" by simp
    with False have "scan r i k prev (c # cs) =
         \<lparr>start = i, matched = take (length (c # cs) - length rest') (c # cs), group1 = g'\<rparr>
         # scan r (Suc i) (length (c # cs) - length rest' - 1) (Some c) cs"
      by (simp add: Let_def)
    with m show ?thesis by (rule hit)
  qed
qed

lemma scan_start:
  "m \<in> set (scan r i k prev t) \<Longrightarrow> i \<le> start m"
proof (induction t arbitrary: i k prev)
  case Nil
  then show ?case by simp
next
  case (Cons c cs)
  show ?case
  proof (cases rule: scan_Cons [of r i k prev c cs])
    case (skip k')
    with Cons.prems have "m \<in> set (scan r (Suc i) k' (Some c) cs)" by simp
    from Cons.IH [OF this] show ?thesis by simp
  next
    case (hit p' rest' g' curs)
    from Cons.prems hit(2)
    consider "start m = i" | "m \<in> set (scan r (Suc i) (length (c # cs) - length rest' - 1) (Some c) cs)"
      by auto
    then show ?thesis
    proof cases
      case 1
      then show ?thesis by simp
    next
      case 2
      from Cons.IH [OF this] show ?thesis by simp
    qed
  qed
qed

lemma scan_sorted:
  "sorted_wrt (<) (map start (scan r i k prev t))"
proof (induction t arbitrary: i k prev)
  case Nil
  then show ?case by simp
next
  case (Cons c cs)
  show ?case
  proof (cases rule: scan_Cons [of r i k prev c cs])
    case (skip k')
    with Cons.IH show ?thesis by simp
  next
    case (hit p' rest' g' curs)
    have "i < start m"
      if "m \<in> set (scan r (Suc i) (length (c # cs) - length rest' - 1) (Some c) cs)" for m
      using scan_start [OF that] by simp
    with hit(2) Cons.IH show ?thesis by auto
  qed
qed

lemma scan_matched:
  "m \<in> set (scan r i k prev t) \<Longrightarrow>
     matched m = take (length (matched m)) (drop (start m - i) t)"
proof (induction t arbitrary: i k prev)
  case Nil
  then show ?case by simp
next
  case (Cons c cs)
  have rec: "matched m = take (length (matched m)) (drop (start m - i) (c # cs))"
    if "m \<in> set (scan r (Suc i) k' (Some c) cs)" for k'
  proof -
    from scan_start [OF that] have "start m - i = Suc (start m - Suc i)" by simp
    with Cons.IH [OF that] show ?thesis by simp
  qed
  show ?case
  proof (cases rule: scan_Cons [of r i k prev c cs])
    case (skip k')
    with Cons.prems rec show ?thesis by simp
  next
    case (hit p' rest' g' curs)
    from Cons.prems hit(2)
    consider "m = \<lparr>start = i, matched = take (length (c # cs) - length rest') (c # cs), group1 = g'\<rparr>"
      | "m \<in> set (scan r (Suc i) (length (c # cs) - length rest' - 1) (Some c) cs)"
      by auto
    then show ?thesis
    proof cases
      case 1
      then show ?thesis by simp
    next
      case 2
      with rec show ?thesis by blast
    qed
  qed
qed

lemma scan_all:
  assumes "\<And>p rest p' rest' g'. (p', rest', g') \<in> set (rmatch r (p, rest, None)) \<Longrightarrow>
             P (take (length rest - length rest') rest) g'"
  shows "m \<in> set (scan r i k prev t) \<Longrightarrow> P (matched m) (group1 m)"
proof (induction t arbitrary: i k prev)
  case Nil
  then show ?case by simp
next
  case (Cons c cs)
  show ?case
  proof (cases rule: scan_Cons [of r i k prev c cs])
    case (skip k')
    with Cons show ?thesis by simp
  next
    case (hit p' rest' g' curs)
    then have "(p', rest', g') \<in> set (rmatch r (prev, c # cs, None))" by simp
    from assms [OF this] have here: "P (take (length (c # cs) - length rest') (c # cs)) g'" .
    from Cons.prems hit(2)
    consider "m = \<lparr>start = i, matched = take (length (c # cs) - length rest') (c # cs), group1 = g'\<rparr>"
      | "m \<in> set (scan r (Suc i) (length (c # cs) - length rest' - 1) (Some c) cs)"
      by auto
    then show ?thesis
    proof cases
      case 1
      with here show ?thesis by simp
    next
      case 2
      with Cons.IH show ?thesis by blast
    qed
  qed
qed

lemma rmatch_suffix:
  "(p', rest', g') \<in> set (rmatch r (p, rest, g)) \<Longrightarrow> \<exists>u. rest = u @ rest'"
proof (induction r arbitrary: p rest g p' rest' g')
  case (Chr x)
  then show ?case by (auto split: list.splits if_splits)
next
  case (Seq a b)
  from Seq.prems obtain mid where mid: "mid \<in> set (rmatch a (p, rest, g))"
    and fin: "(p', rest', g') \<in> set (rmatch b mid)" by auto
  obtain p1 r1 g1 where m: "mid = (p1, r1, g1)" by (cases mid)
  from Seq.IH(1) mid m obtain u where "rest = u @ r1" by blast
  moreover from Seq.IH(2) fin m obtain v where "r1 = v @ rest'" by blast
  ultimately have "rest = (u @ v) @ rest'" by simp
  then show ?case by blast
next
  case (Alt a b)
  then show ?case by auto
next
  case (Opt a)
  then show ?case by auto
next
  case (Times n x)
  then have "rest = take n rest @ rest'" by (auto split: if_splits)
  then show ?case by blast
next
  case (AtLeast n x)
  then obtain j where "rest' = drop j rest" by auto
  then have "rest = take j rest @ rest'" by simp
  then show ?case by blast
next
  case Boundary
  then show ?case by (auto split: if_splits)
next
  case (Group a)
  then show ?case by auto
qed


lemma take_prefix_of_takeWhile:
  "j \<le> length (takeWhile P xs) \<Longrightarrow> set (take j xs) \<subseteq> {x. P x}"
proof -
  assume j: "j \<le> length (takeWhile P xs)"
  have "take j xs = take j (takeWhile P xs @ dropWhile P xs)" by simp
  also have "\<dots> = take j (takeWhile P xs)" using j by (simp only: take_append) simp
  finally have "set (take j xs) \<subseteq> set (takeWhile P xs)" by (simp add: set_take_subset)
  then show ?thesis by (auto dest: set_takeWhileD)
qed

lemma rmatch_AtLeast:
  "(p', rest', g') \<in> set (rmatch (AtLeast n x) (p, rest, g)) \<Longrightarrow>
     \<exists>j. n \<le> j \<and> j \<le> length (takeWhile x rest) \<and> rest' = drop j rest \<and> g' = g"
  by auto

lemma length_takeWhile_le': "length (takeWhile P xs) \<le> length xs"
  by (rule length_takeWhile_le)

lemma rmatch_Group:
  "(p', rest', g') \<in> set (rmatch (Group a) (p, rest, g)) \<Longrightarrow>
     \<exists>g0. (p', rest', g0) \<in> set (rmatch a (p, rest, g)) \<and>
          g' = Some (take (length rest - length rest') rest)"
  by auto

lemma rmatch_Seq:
  "c' \<in> set (rmatch (Seq a b) cur) \<Longrightarrow>
     \<exists>p1 r1 g1. (p1, r1, g1) \<in> set (rmatch a cur) \<and> c' \<in> set (rmatch b (p1, r1, g1))"
  by auto

lemma rmatch_Boundary:
  "(p', rest', g') \<in> set (rmatch Boundary (p, rest, g)) \<Longrightarrow> rest' = rest"
  by (auto split: if_splits)

lemma consumed_drop: "j \<le> length xs \<Longrightarrow> length xs - length (drop j xs) = j"
  by simp

lemma rmatch_word_pattern:
  assumes "(p', rest', g') \<in> set (rmatch word_pattern (p, rest, g))"
  shows "3 \<le> length (take (length rest - length rest') rest) \<and>
         (\<forall>c \<in> set (take (length rest - length rest') rest). is_alpha c)"
proof -
  have "word_pattern = Seq Boundary (Seq (AtLeast 3 is_alpha) Boundary)"
    by (simp add: word_pattern_def seq_def)
  with assms rmatch_Seq [of "(p', rest', g')" Boundary "Seq (AtLeast 3 is_alpha) Boundary" "(p, rest, g)"]
  obtain p0 r0 g0 where s0: "(p0, r0, g0) \<in> set (rmatch Boundary (p, rest, g))"
    and s1: "(p', rest', g') \<in> set (rmatch (Seq (AtLeast 3 is_alpha) Boundary) (p0, r0, g0))"
    by auto
  from rmatch_Boundary [OF s0] have r0: "r0 = rest" .
  from rmatch_Seq [OF s1] obtain p1 r1 g1 where
    mid: "(p1, r1, g1) \<in> set (rmatch (AtLeast 3 is_alpha) (p0, r0, g0))"
    and fin: "(p', rest', g') \<in> set (rmatch Boundary (p1, r1, g1))" by blast
  from rmatch_Boundary [OF fin] have r1: "rest' = r1" .
  from rmatch_AtLeast [OF mid] r0 obtain j where j: "3 \<le> j" "j \<le> length (takeWhile is_alpha rest)"
    "r1 = drop j rest" by blast
  from j(2) length_takeWhile_le [of is_alpha rest] have jl: "j \<le> length rest" by simp
  from r1 j(3) consumed_drop [OF jl] have "length rest - length rest' = j" by simp
  with j(1) jl take_prefix_of_takeWhile [OF j(2)] show ?thesis by auto
qed

lemma rmatch_Group_AtLeast:
  assumes "(p', rest', g') \<in> set (rmatch (Group (AtLeast n x)) (p, rest, g))" and "0 < n"
  shows "\<exists>pre u. rest = pre @ u @ rest' \<and> g' = Some u \<and> u \<noteq> []"
proof -
  from rmatch_Group [OF assms(1)] obtain g0 where
    inner: "(p', rest', g0) \<in> set (rmatch (AtLeast n x) (p, rest, g))"
    and g': "g' = Some (take (length rest - length rest') rest)"
    by blast
  from rmatch_AtLeast [OF inner] obtain j where j: "n \<le> j" "j \<le> length (takeWhile x rest)"
    "rest' = drop j rest" by blast
  from j(2) length_takeWhile_le [of x rest] have jl: "j \<le> length rest" by simp
  from j(3) consumed_drop [OF jl] have len: "length rest - length rest' = j" by simp
  have "rest = [] @ take j rest @ rest'" using j(3) by simp
  moreover from jl j(1) assms(2) have "take j rest \<noteq> []" by auto
  ultimately show ?thesis using g' len by blast
qed

lemma rmatch_Seq_capture:
  assumes b: "\<And>p rest g p' rest' g'. (p', rest', g') \<in> set (rmatch b (p, rest, g)) \<Longrightarrow>
                \<exists>pre u. rest = pre @ u @ rest' \<and> g' = Some u \<and> u \<noteq> []"
    and "(p', rest', g') \<in> set (rmatch (Seq a b) (p, rest, g))"
  shows "\<exists>pre u. rest = pre @ u @ rest' \<and> g' = Some u \<and> u \<noteq> []"
proof -
  from rmatch_Seq [OF assms(2)] obtain p1 r1 g1 where mid: "(p1, r1, g1) \<in> set (rmatch a (p, rest, g))"
    and fin: "(p', rest', g') \<in> set (rmatch b (p1, r1, g1))" by blast
  from rmatch_suffix [OF mid] obtain v where v: "rest = v @ r1" by blast
  from b [OF fin] obtain pre u where "r1 = pre @ u @ rest'" "g' = Some u" "u \<noteq> []" by blast
  with v have "rest = (v @ pre) @ u @ rest'" "g' = Some u" "u \<noteq> []" by simp_all
  then show ?thesis by blast
qed

lemma rmatch_order_pattern:
  assumes "(p', rest', g') \<in> set (rmatch order_pattern (p, rest, g))"
  shows "\<exists>pre u. g' = Some u \<and> u \<noteq> [] \<and> take (length rest - length rest') rest = pre @ u"
proof -
  let ?G = "Group (AtLeast 1 is_alnum)"
  let ?D = "Seq (AtLeast 0 is_space) ?G"
  let ?C = "Seq (Opt (Chr (one_of ''-:''))) ?D"
  let ?B = "Seq (AtLeast 0 is_space) ?C"
  let ?A = "Seq (Alt (lit_ignorecase ''order'') (Chr (one_of ''#''))) ?B"
  have pat: "order_pattern = ?A"
    by (simp add: order_pattern_def seq_def)
  have cG: "\<exists>pre u. rest = pre @ u @ rest' \<and> g' = Some u \<and> u \<noteq> []"
    if "(p', rest', g') \<in> set (rmatch ?G (p, rest, g))" for p rest g p' rest' g'
    using rmatch_Group_AtLeast [OF that] by simp
  have cD: "\<exists>pre u. rest = pre @ u @ rest' \<and> g' = Some u \<and> u \<noteq> []"
    if "(p', rest', g') \<in> set (rmatch ?D (p, rest, g))" for p rest g p' rest' g'
    using cG that by (rule rmatch_Seq_capture)
  have cC: "\<exists>pre u. rest = pre @ u @ rest' \<and> g' = Some u \<and> u \<noteq> []"
    if "(p', rest', g') \<in> set (rmatch ?C (p, rest, g))" for p rest g p' rest' g'
    using cD that by (rule rmatch_Seq_capture)
  have cB: "\<exists>pre u. rest = pre @ u @ rest' \<and> g' = Some u \<and> u \<noteq> []"
    if "(p', rest', g') \<in> set (rmatch ?B (p, rest, g))" for p rest g p' rest' g'
    using cC that by (rule rmatch_Seq_capture)
  have cA: "\<exists>pre u. rest = pre @ u @ rest' \<and> g' = Some u \<and> u \<noteq> []"
    if "(p', rest', g') \<in> set (rmatch ?A (p, rest, g))" for p rest g p' rest' g'
    using cB that by (rule rmatch_Seq_capture)
  from assms pat have "(p', rest', g') \<in> set (rmatch ?A (p, rest, g))" by simp
  from cA [OF this] obtain pre u where "rest = pre @ u @ rest'" "g' = Some u" "u \<noteq> []" by blast
  then have "take (length rest - length rest') rest = pre @ u" "g' = Some u" "u \<noteq> []"
    by simp_all
  then show ?thesis by blast
qed

lemma claim_text_entities:
  "extract_entities claim_text =
     [\<lparr>entity_type = ''email'', entity_value = ''john.doe@example.com''\<rparr>,
      \<lparr>entity_type = ''phone'', entity_value = ''555-123-4567''\<rparr>,
      \<lparr>entity_type = ''order_id'', entity_value = ''12345''\<rparr>,
      \<lparr>entity_type = ''money'', entity_value = ''$49.99''\<rparr>]"
  by code_simp

lemma scan_order_pattern:
  assumes "m \<in> set (scan order_pattern i k prev t)"
  shows "\<exists>pre u. group1 m = Some u \<and> u \<noteq> [] \<and> matched m = pre @ u"
proof -
  define P where "P = (\<lambda>w g. \<exists>pre u. g = Some u \<and> u \<noteq> [] \<and> w = pre @ (u :: string))"
  have step: "P (take (length rest - length rest') rest) g'"
    if "(p', rest', g') \<in> set (rmatch order_pattern (p, rest, None))" for p rest p' rest' g'
    using rmatch_order_pattern [OF that] by (simp add: P_def)
  have "P (matched m) (group1 m)"
    using step assms by (rule scan_all)
  then show ?thesis by (simp add: P_def)
qed

text \<open>
  C6, as amended. The entities are grouped by type: the email addresses, then the phone
  numbers, then the order identifiers, then the dollar amounts. The matches of each
  pattern are stretches of the text at strictly ascending positions, so that within a
  type the entities are in document order; there is one entity for every match, also for
  a value that has occurred before. The value of an order identifier is the group of its
  match, which is not empty and ends the match. The text of the claim gives the email
  address, the phone number, the order identifier 12345 and the amount \<open>$49.99\<close>.
\<close>

theorem entities_by_type:
  "extract_entities text =
     entities_of ''email'' (map matched (finditer email_pattern text)) @
     entities_of ''phone'' (map matched (finditer phone_pattern text)) @
     entities_of ''order_id''
       (map (\<lambda>m. case group1 m of None \<Rightarrow> [] | Some g \<Rightarrow> g) (finditer order_pattern text)) @
     entities_of ''money'' (map matched (finditer money_pattern text)) \<and>
   (\<forall>r. sorted_wrt (<) (map start (finditer r text)) \<and>
        (\<forall>m \<in> set (finditer r text).
           matched m = take (length (matched m)) (drop (start m) text))) \<and>
   (\<forall>m \<in> set (finditer order_pattern text).
      \<exists>pre u. group1 m = Some u \<and> u \<noteq> [] \<and> matched m = pre @ u) \<and>
   length (extract_entities text) =
     length (finditer email_pattern text) + length (finditer phone_pattern text) +
     length (finditer order_pattern text) + length (finditer money_pattern text) \<and>
   extract_entities claim_text =
     [\<lparr>entity_type = ''email'', entity_value = ''john.doe@example.com''\<rparr>,
      \<lparr>entity_type = ''phone'', entity_value = ''555-123-4567''\<rparr>,
      \<lparr>entity_type = ''order_id'', entity_value = ''12345''\<rparr>,
      \<lparr>entity_type = ''money'', entity_value = ''$49.99''\<rparr>]"
proof (intro conjI allI ballI)
  show "extract_entities text =
     entities_of ''email'' (map matched (finditer email_pattern text)) @
     entities_of ''phone'' (map matched (finditer phone_pattern text)) @
     entities_of ''order_id''
       (map (\<lambda>m. case group1 m of None \<Rightarrow> [] | Some g \<Rightarrow> g) (finditer order_pattern text)) @
     entities_of ''money'' (map matched (finditer money_pattern text))"
    by (simp add: extract_entities_def findall_def findall_group_def)
next
  fix r
  show "sorted_wrt (<) (map start (finditer r text))"
    unfolding finditer_def by (rule scan_sorted)
next
  fix r m
  assume "m \<in> set (finditer r text)"
  then show "matched m = take (length (matched m)) (drop (start m) text)"
    using scan_matched [of m r 0 0 None "text"] by (simp add: finditer_def)
next
  fix m
  assume "m \<in> set (finditer order_pattern text)"
  then have "m \<in> set (scan order_pattern 0 0 None text)"
    by (simp add: finditer_def)
  then show "\<exists>pre u. group1 m = Some u \<and> u \<noteq> [] \<and> matched m = pre @ u"
    by (rule scan_order_pattern)
next
  show "length (extract_entities text) =
     length (finditer email_pattern text) + length (finditer phone_pattern text) +
     length (finditer order_pattern text) + length (finditer money_pattern text)"
    by (simp add: extract_entities_def findall_def findall_group_def entities_of_def)
next
  show "extract_entities claim_text =
     [\<lparr>entity_type = ''email'', entity_value = ''john.doe@example.com''\<rparr>,
      \<lparr>entity_type = ''phone'', entity_value = ''555-123-4567''\<rparr>,
      \<lparr>entity_type = ''order_id'', entity_value = ''12345''\<rparr>,
      \<lparr>entity_type = ''money'', entity_value = ''$49.99''\<rparr>]"
    by (rule claim_text_entities)
qed

lemma repeated_text_entities:
  "extract_entities repeated_text =
     [\<lparr>entity_type = ''order_id'', entity_value = ''12345''\<rparr>,
      \<lparr>entity_type = ''order_id'', entity_value = ''67890''\<rparr>,
      \<lparr>entity_type = ''money'', entity_value = ''$5''\<rparr>,
      \<lparr>entity_type = ''money'', entity_value = ''$5''\<rparr>]"
  by code_simp

lemma repeated_text_money:
  "finditer money_pattern repeated_text =
     [\<lparr>start = 0, matched = ''$5'', group1 = None\<rparr>, \<lparr>start = 7, matched = ''$5'', group1 = None\<rparr>]"
  by code_simp

lemma repeated_text_orders:
  "finditer order_pattern repeated_text =
     [\<lparr>start = 26, matched = ''#12345'', group1 = Some ''12345''\<rparr>,
      \<lparr>start = 37, matched = ''ORDER-67890'', group1 = Some ''67890''\<rparr>]"
  by code_simp

theorem entities_by_type_witness:
  "extract_entities repeated_text =
     [\<lparr>entity_type = ''order_id'', entity_value = ''12345''\<rparr>,
      \<lparr>entity_type = ''order_id'', entity_value = ''67890''\<rparr>,
      \<lparr>entity_type = ''money'', entity_value = ''$5''\<rparr>,
      \<lparr>entity_type = ''money'', entity_value = ''$5''\<rparr>] \<and>
   map start (finditer order_pattern repeated_text) = [26, 37] \<and>
   map start (finditer money_pattern repeated_text) = [0, 7] \<and>
   sorted_wrt (<) (map start (finditer money_pattern repeated_text)) \<and>
   map matched (finditer order_pattern repeated_text) = [''#12345'', ''ORDER-67890''] \<and>
   map group1 (finditer order_pattern repeated_text) = [Some ''12345'', Some ''67890'']"
  using entities_by_type [of repeated_text] repeated_text_entities
  by (simp add: repeated_text_money repeated_text_orders)

text \<open>
  C6 as stated fails: in this text the amount (at position 8) comes before the email
  address (at position 21), and the address is the first entity of the result.
\<close>

theorem entities_not_in_document_order:
  "extract_entities money_first_text =
     [\<lparr>entity_type = ''email'', entity_value = ''a@b.co''\<rparr>,
      \<lparr>entity_type = ''money'', entity_value = ''$5''\<rparr>] \<and>
   finditer email_pattern money_first_text =
     [\<lparr>start = 21, matched = ''a@b.co'', group1 = None\<rparr>] \<and>
   finditer money_pattern money_first_text =
     [\<lparr>start = 8, matched = ''$5'', group1 = None\<rparr>]"
  by code_simp

subsection \<open>Keywords\<close>

lemma dict_get_map_of: "dict_get d k v = (case map_of d k of None \<Rightarrow> v | Some x \<Rightarrow> x)"
  by (induction d) auto

lemma map_of_dict_set: "map_of (dict_set d k v) = (map_of d)(k \<mapsto> v)"
  by (induction d) auto

lemma keys_dict_set:
  "map fst (dict_set d k v) = (if k \<in> set (map fst d) then map fst d else map fst d @ [k])"
proof (induction d)
  case Nil
  then show ?case by simp
next
  case (Cons x d)
  obtain k' v' where x: "x = (k', v')" by (cases x)
  show ?case
  proof (cases "k' = k")
    case True
    with x show ?thesis by simp
  next
    case False
    with x Cons show ?thesis by simp
  qed
qed

lemma count_words_snoc:
  "count_words d (ws @ [w]) =
     (if w \<notin> set stop_words
      then dict_set (count_words d ws) w (dict_get (count_words d ws) w 0 + 1)
      else count_words d ws)"
  by (induction ws arbitrary: d) auto

lemma first_seen_less: "a \<in> set ws \<Longrightarrow> first_seen ws a < length ws"
  by (induction ws) (auto simp: first_seen_def)

lemma first_seen_snoc_old: "a \<in> set ws \<Longrightarrow> first_seen (ws @ [w]) a = first_seen ws a"
  unfolding first_seen_def by (simp add: takeWhile_append1)

lemma first_seen_snoc_new: "w \<notin> set ws \<Longrightarrow> first_seen (ws @ [w]) w = length ws"
  unfolding first_seen_def by (subst takeWhile_append2) auto

lemma sorted_wrt_snoc:
  "sorted_wrt P (xs @ [x]) \<longleftrightarrow> sorted_wrt P xs \<and> (\<forall>y \<in> set xs. P y x)"
  by (simp add: sorted_wrt_append)

lemma count_words_inv:
  "distinct (map fst (count_words [] ws)) \<and>
   (\<forall>w. map_of (count_words [] ws) w =
      (if w \<in> set ws \<and> w \<notin> set stop_words then Some (count_list ws w) else None)) \<and>
   sorted_wrt (\<lambda>a b. first_seen ws a < first_seen ws b) (map fst (count_words [] ws))"
proof (induction ws rule: rev_induct)
  case Nil
  then show ?case by simp
next
  case (snoc w ws)
  let ?d = "count_words [] ws"
  from snoc have dist: "distinct (map fst ?d)"
    and look: "\<And>x. map_of ?d x =
      (if x \<in> set ws \<and> x \<notin> set stop_words then Some (count_list ws x) else None)"
    and ord: "sorted_wrt (\<lambda>a b. first_seen ws a < first_seen ws b) (map fst ?d)"
    by simp_all
  have keys: "set (map fst ?d) = {x \<in> set ws. x \<notin> set stop_words}"
  proof -
    have "set (map fst ?d) = dom (map_of ?d)" by (simp add: dom_map_of_conv_image_fst)
    also have "\<dots> = {x \<in> set ws. x \<notin> set stop_words}" by (auto simp: look dom_def)
    finally show ?thesis .
  qed
  have ord': "sorted_wrt (\<lambda>a b. first_seen (ws @ [w]) a < first_seen (ws @ [w]) b) (map fst ?d)"
  proof (rule sorted_wrt_mono_rel [OF _ ord])
    fix a b
    assume "a \<in> set (map fst ?d)" "b \<in> set (map fst ?d)" "first_seen ws a < first_seen ws b"
    with keys show "first_seen (ws @ [w]) a < first_seen (ws @ [w]) b"
      by (simp add: first_seen_snoc_old)
  qed
  show ?case
  proof (cases "w \<in> set stop_words")
    case True
    with dist look ord' show ?thesis by (simp add: count_words_snoc)
  next
    case False
    show ?thesis
    proof (cases "w \<in> set ws")
      case True
      with False keys have "w \<in> set (map fst ?d)" by simp
      with False True dist look ord' show ?thesis
        by (simp add: count_words_snoc keys_dict_set map_of_dict_set dict_get_map_of)
    next
      case new: False
      with keys have notin: "w \<notin> set (map fst ?d)" by simp
      have "\<forall>y \<in> set (map fst ?d). first_seen (ws @ [w]) y < first_seen (ws @ [w]) w"
        using keys new by (auto simp: first_seen_snoc_old first_seen_snoc_new first_seen_less)
      with False new notin dist look ord' show ?thesis
        by (simp add: count_words_snoc keys_dict_set map_of_dict_set dict_get_map_of
            sorted_wrt_snoc)
    qed
  qed
qed

lemma insort_key_stable:
  assumes "sorted_wrt (\<lambda>a b. f a < f b \<or> (f a = f b \<and> R a b)) ys"
    and "\<forall>y \<in> set ys. R x y"
  shows "sorted_wrt (\<lambda>a b. f a < f b \<or> (f a = f b \<and> R a b)) (insort_key f x ys)"
  using assms
proof (induction ys)
  case Nil
  then show ?case by simp
next
  case (Cons y ys)
  show ?case
  proof (cases "f x \<le> f y")
    case True
    have "f x < f z \<or> (f x = f z \<and> R x z)" if "z \<in> set (y # ys)" for z
    proof -
      from Cons.prems(1) that have "f y \<le> f z" by auto
      with True have "f x \<le> f z" by simp
      with Cons.prems(2) that show ?thesis by auto
    qed
    with True Cons.prems(1) show ?thesis by simp
  next
    case False
    with Cons show ?thesis by (auto simp: set_insort_key)
  qed
qed

lemma sort_key_stable:
  fixes f :: "'a \<Rightarrow> int"
  shows "sorted_wrt R xs \<Longrightarrow>
     sorted_wrt (\<lambda>a b. f a < f b \<or> (f a = f b \<and> R a b)) (sort_key f xs)"
proof (induction xs)
  case Nil
  then show ?case by simp
next
  case (Cons x xs)
  then have "sorted_wrt (\<lambda>a b. f a < f b \<or> (f a = f b \<and> R a b)) (sort_key f xs)"
    and "\<forall>y \<in> set (sort_key f xs). R x y" by simp_all
  then have "sorted_wrt (\<lambda>a b. f a < f b \<or> (f a = f b \<and> R a b)) (insort_key f x (sort_key f xs))"
    by (rule insort_key_stable)
  then show ?case by (simp add: sort_key_def)
qed

lemma lower_char_not_upper: "\<not> is_upper (lower_char c)"
proof (cases "map_of (zip (upper_letters @ latin1_capitals) (lower_letters @ latin1_smalls)) c")
  case None
  have "map fst (zip (upper_letters @ latin1_capitals) (lower_letters @ latin1_smalls))
          = upper_letters @ latin1_capitals"
    by (simp add: upper_letters_def lower_letters_def latin1_capitals_def latin1_smalls_def)
  with None have "c \<notin> set (upper_letters @ latin1_capitals)"
    by (metis map_of_eq_None_iff set_map)
  with None show ?thesis
    by (simp add: lower_char_def is_upper_def)
next
  case (Some d)
  then have "(c, d) \<in> set (zip (upper_letters @ latin1_capitals) (lower_letters @ latin1_smalls))"
    by (rule map_of_SomeD)
  then have "d \<in> set (lower_letters @ latin1_smalls)"
    by (rule set_zip_rightD)
  moreover have "set (lower_letters @ latin1_smalls) \<inter> set upper_letters = {}"
    by (simp add: upper_letters_def lower_letters_def latin1_smalls_def)
  ultimately show ?thesis
    using Some by (auto simp: lower_char_def is_upper_def)
qed

lemma word_tokens:
  assumes "w \<in> set (findall word_pattern (lower t))"
  shows "3 \<le> length w \<and> (\<forall>c \<in> set w. is_lower c)"
proof -
  from assms obtain m where m: "m \<in> set (scan word_pattern 0 0 None (lower t))"
    and w: "w = matched m"
    by (auto simp: findall_def finditer_def)
  define P where "P = (\<lambda>(v :: string) (g :: string option). 3 \<le> length v \<and> (\<forall>c \<in> set v. is_alpha c))"
  have step: "P (take (length rest - length rest') rest) g'"
    if "(p', rest', g') \<in> set (rmatch word_pattern (p, rest, None))" for p rest p' rest' g'
    using rmatch_word_pattern [OF that] by (simp add: P_def)
  have "P (matched m) (group1 m)"
    using step m by (rule scan_all)
  with w have len: "3 \<le> length w" and alpha: "\<forall>c \<in> set w. is_alpha c"
    by (simp_all add: P_def)
  from scan_matched [OF m] w have "set w \<subseteq> set (lower t)"
    by (metis in_set_dropD in_set_takeD subsetI)
  then have "\<forall>c \<in> set w. \<not> is_upper c"
    by (auto simp: lower_def lower_char_not_upper)
  with len alpha show ?thesis by (auto simp: is_alpha_def)
qed

lemma keywords_ranked:
  fixes ws :: "string list"
  defines "ranking \<equiv> map fst (sorted_by_count_reverse (count_words [] ws))"
  shows "distinct ranking \<and> set ranking = set ws - set stop_words \<and>
         sorted_wrt (ranks_before ws) ranking"
proof -
  let ?d = "count_words [] ws"
  let ?f = "\<lambda>x :: string \<times> nat. - int (snd x)"
  let ?R = "\<lambda>a b :: string \<times> nat. first_seen ws (fst a) < first_seen ws (fst b)"
  from count_words_inv [of ws] have dist: "distinct (map fst ?d)"
    and look: "\<And>x. map_of ?d x =
      (if x \<in> set ws \<and> x \<notin> set stop_words then Some (count_list ws x) else None)"
    and ord: "sorted_wrt (\<lambda>a b. first_seen ws a < first_seen ws b) (map fst ?d)"
    by simp_all
  have keys: "set (map fst ?d) = set ws - set stop_words"
  proof -
    have "set (map fst ?d) = dom (map_of ?d)" by (simp add: dom_map_of_conv_image_fst)
    also have "\<dots> = set ws - set stop_words" by (auto simp: look dom_def)
    finally show ?thesis .
  qed
  have count: "snd x = count_list ws (fst x)" if "x \<in> set ?d" for x
  proof -
    from that dist have "map_of ?d (fst x) = Some (snd x)" by simp
    with look [of "fst x"] show ?thesis by (simp split: if_splits)
  qed
  have d1: "distinct ranking"
  proof -
    from dist have "distinct ?d" "inj_on fst (set ?d)" by (simp_all add: distinct_map)
    then show ?thesis
      by (simp add: ranking_def sorted_by_count_reverse_def distinct_map)
  qed
  have d2: "set ranking = set ws - set stop_words"
    using keys by (simp add: ranking_def sorted_by_count_reverse_def)
  from ord have "sorted_wrt ?R ?d" by (simp add: sorted_wrt_map)
  then have "sorted_wrt (\<lambda>a b. ?f a < ?f b \<or> (?f a = ?f b \<and> ?R a b)) (sort_key ?f ?d)"
    by (rule sort_key_stable)
  then have "sorted_wrt (\<lambda>a b. ranks_before ws (fst a) (fst b)) (sort_key ?f ?d)"
  proof (rule sorted_wrt_mono_rel [rotated])
    fix a b
    assume "a \<in> set (sort_key ?f ?d)" "b \<in> set (sort_key ?f ?d)"
      and "?f a < ?f b \<or> (?f a = ?f b \<and> ?R a b)"
    with count [of a] count [of b] show "ranks_before ws (fst a) (fst b)"
      by (auto simp: ranks_before_def)
  qed
  then have d3: "sorted_wrt (ranks_before ws) ranking"
    by (simp add: ranking_def sorted_by_count_reverse_def sorted_wrt_map)
  from d1 d2 d3 show ?thesis by blast
qed

lemma top_of_ranking:
  assumes "distinct xs" and "sorted_wrt R xs"
  shows "distinct (take n xs) \<and> set (take n xs) \<subseteq> set xs \<and>
         length (take n xs) = min n (card (set xs)) \<and> sorted_wrt R (take n xs) \<and>
         (\<forall>w \<in> set xs - set (take n xs). \<forall>k \<in> set (take n xs). R k w)"
proof -
  have split: "xs = take n xs @ drop n xs" by simp
  from assms(2) have "sorted_wrt R (take n xs @ drop n xs)" by simp
  then have s: "sorted_wrt R (take n xs)" and cross: "\<forall>k \<in> set (take n xs). \<forall>w \<in> set (drop n xs). R k w"
    unfolding sorted_wrt_append by simp_all
  have rest: "set xs - set (take n xs) \<subseteq> set (drop n xs)"
    using split by (metis Diff_subset_conv Un_commute order_refl set_append)
  from assms(1) have "length xs = card (set xs)" by (simp add: distinct_card)
  then have len: "length (take n xs) = min n (card (set xs))" by (simp add: min.commute)
  from assms(1) s cross rest len show ?thesis
    by (auto simp: set_take_subset dest: in_set_takeD)
qed

text \<open>
  C9. For a number of keywords that is not negative: the words found in the text in
  lower case are all of at least three letters, all lower-case letters. The keywords
  are distinct words among them that are no stop words, as many as asked for or all
  there are, whichever is less. They are in descending order of frequency, and two of
  equal frequency in the order in which they are first seen; every word left out comes
  after every keyword in that order.
\<close>

theorem keywords_rule:
  "0 \<le> max_keywords \<longrightarrow>
   (\<forall>w \<in> set (findall word_pattern (lower text)). 3 \<le> length w \<and> (\<forall>c \<in> set w. is_lower c)) \<and>
   distinct (extract_keywords text max_keywords) \<and>
   set (extract_keywords text max_keywords)
     \<subseteq> set (findall word_pattern (lower text)) - set stop_words \<and>
   length (extract_keywords text max_keywords)
     = min (nat max_keywords) (card (set (findall word_pattern (lower text)) - set stop_words)) \<and>
   sorted_wrt (ranks_before (findall word_pattern (lower text))) (extract_keywords text max_keywords) \<and>
   (\<forall>w \<in> set (findall word_pattern (lower text)) - set stop_words
            - set (extract_keywords text max_keywords).
      \<forall>k \<in> set (extract_keywords text max_keywords).
        ranks_before (findall word_pattern (lower text)) k w)"
proof
  assume nonneg: "0 \<le> max_keywords"
  let ?ws = "findall word_pattern (lower text)"
  let ?ranking = "map fst (sorted_by_count_reverse (count_words [] ?ws))"
  from nonneg have ks: "extract_keywords text max_keywords = take (nat max_keywords) ?ranking"
    by (simp add: extract_keywords_def Let_def slice_to_nonneg take_map)
  from keywords_ranked [of ?ws] have r: "distinct ?ranking"
    "set ?ranking = set ?ws - set stop_words" "sorted_wrt (ranks_before ?ws) ?ranking"
    by simp_all
  from top_of_ranking [OF r(1) r(3), of "nat max_keywords"] word_tokens [of _ "text"]
  show "(\<forall>w \<in> set ?ws. 3 \<le> length w \<and> (\<forall>c \<in> set w. is_lower c)) \<and>
   distinct (extract_keywords text max_keywords) \<and>
   set (extract_keywords text max_keywords) \<subseteq> set ?ws - set stop_words \<and>
   length (extract_keywords text max_keywords)
     = min (nat max_keywords) (card (set ?ws - set stop_words)) \<and>
   sorted_wrt (ranks_before ?ws) (extract_keywords text max_keywords) \<and>
   (\<forall>w \<in> set ?ws - set stop_words - set (extract_keywords text max_keywords).
      \<forall>k \<in> set (extract_keywords text max_keywords). ranks_before ?ws k w)"
    unfolding ks r(2) by blast
qed

lemma pets_words:
  "findall word_pattern (lower pets_text) =
     [''the'', ''cat'', ''and'', ''the'', ''dog'', ''the'', ''cat'', ''sat'', ''dog'', ''dog'',
      ''bird'', ''fish'', ''fish'']"
  by code_simp

lemma pets_keywords: "extract_keywords pets_text 3 = [''dog'', ''cat'', ''fish'']"
  by code_simp

lemma pets_all_keywords:
  "extract_keywords pets_text 10 = [''dog'', ''cat'', ''fish'', ''sat'', ''bird'']"
  by code_simp

theorem keywords_rule_witness:
  "0 \<le> (3::int) \<and>
   extract_keywords pets_text 3 = [''dog'', ''cat'', ''fish''] \<and>
   extract_keywords pets_text 10 = [''dog'', ''cat'', ''fish'', ''sat'', ''bird''] \<and>
   length (extract_keywords pets_text 3)
     = min 3 (card (set (findall word_pattern (lower pets_text)) - set stop_words)) \<and>
   sorted_wrt (ranks_before (findall word_pattern (lower pets_text))) [''dog'', ''cat'', ''fish'']"
  using keywords_rule [of 3 pets_text] pets_all_keywords
  by (simp add: pets_keywords)

end
